theory Spec2Isabelle
  imports Main "HOL-Library.Word" "HOL-Library.Multiset" "HOL-Library.Product_Lexorder"
begin

section \<open>The clause object (clause.hpp)\<close>

text \<open>
  The embedding follows the LP64 data model the source comments assume
  (``omit these 8 bytes used for 'analyzed'\,'', ``this saves 4 bytes''):
  \<^verbatim>\<open>int\<close> is a 32-bit word, \<^verbatim>\<open>long\<close> and \<^verbatim>\<open>size_t\<close> are 64-bit words, and the
  bit field \<^verbatim>\<open>signed int glue : LD_MAX_GLUE\<close> is a 25-bit word.  Signed values are
  read with \<open>sint\<close>; every comparison of the source is a signed comparison.

  A \<^verbatim>\<open>Clause *\<close> is an address.  The union of \<^verbatim>\<open>literals\<close> and \<^verbatim>\<open>copy\<close> is only
  read as \<^verbatim>\<open>literals\<close> by the functions embedded here, so the record keeps the
  literal sequence.  The fields \<^verbatim>\<open>_analyzed\<close>, \<^verbatim>\<open>_pos\<close> and \<^verbatim>\<open>size\<close> are called
  \<open>raw_analyzed\<close>, \<open>raw_pos\<close> and \<open>size_cl\<close> (an identifier cannot start with an
  underscore, and \<open>size\<close> is a constant of HOL).
\<close>

type_synonym addr = nat

datatype error = AssertionFailed

record Clause =
  raw_analyzed :: "64 word"
  raw_pos :: "32 word"
  have_analyzed :: bool
  have_pos :: bool
  redundant :: bool
  garbage :: bool
  reason :: bool
  moved :: bool
  glue :: "25 word"
  blocked :: "32 word"
  size_cl :: "32 word"
  literals :: "32 word list"

definition LD_MAX_GLUE :: nat where
  "LD_MAX_GLUE = 25"

definition MAX_GLUE :: int where
  "MAX_GLUE = 2 ^ (LD_MAX_GLUE - 1) - 1"

text \<open>The accessors: \<^verbatim>\<open>assert (have.analyzed); return _analyzed;\<close> and the same for
  \<^verbatim>\<open>pos\<close>.  A failed assertion is the error value.\<close>

definition analyzed :: "Clause \<Rightarrow> error + 64 word" where
  "analyzed c = (if have_analyzed c then Inr (raw_analyzed c) else Inl AssertionFailed)"

definition pos :: "Clause \<Rightarrow> error + 32 word" where
  "pos c = (if have_pos c then Inr (raw_pos c) else Inl AssertionFailed)"

text \<open>\<^verbatim>\<open>update_after_shrinking\<close>: the assertion, then the two conditional
  assignments in the source's order.  \<^verbatim>\<open>glue = size\<close> stores an \<^verbatim>\<open>int\<close> into the
  25-bit field, which keeps its low 25 bits (\<open>scast\<close>); \<^verbatim>\<open>glue > size\<close> promotes
  the field to \<^verbatim>\<open>int\<close>.\<close>

definition update_after_shrinking :: "Clause \<Rightarrow> error + Clause" where
  "update_after_shrinking c =
     (if \<not> 2 \<le> sint (size_cl c) then Inl AssertionFailed
      else
        let c1 = (if have_pos c \<and> sint (size_cl c) \<le> sint (raw_pos c)
                  then c\<lparr>raw_pos := 2\<rparr> else c);
            c2 = (if sint (size_cl c1) < sint (glue c1)
                  then c1\<lparr>glue := scast (size_cl c1)\<rparr> else c1)
        in Inr c2)"

definition collect :: "Clause \<Rightarrow> bool" where
  "collect c = (\<not> reason c \<and> garbage c)"

text \<open>The size operators of the layout: \<^verbatim>\<open>sizeof _pos\<close> and \<^verbatim>\<open>sizeof (int)\<close> are 4,
  \<^verbatim>\<open>sizeof _analyzed\<close> is 8.  \<^verbatim>\<open>sizeof (Clause)\<close> depends on how the compiler packs
  the bit fields, so \<open>bytes\<close> takes it as the parameter \<open>sizeof_Clause\<close>.\<close>

definition sizeof_int :: "64 word" where
  "sizeof_int = 4"

definition sizeof_long :: "64 word" where
  "sizeof_long = 8"

definition offset :: "Clause \<Rightarrow> 64 word" where
  "offset c =
     (let res = 0;
          res = (if \<not> have_pos c then res + sizeof_int else res);
          res = (if \<not> have_analyzed c then res + sizeof_long else res)
      in res)"

text \<open>\<^verbatim>\<open>sizeof (Clause) + (size - 2) * sizeof (int) - offset ()\<close>: the difference
  \<^verbatim>\<open>size - 2\<close> is an \<^verbatim>\<open>int\<close>, converted to \<^verbatim>\<open>size_t\<close> (sign extension) for the
  product; the \<^verbatim>\<open>size_t\<close> arithmetic wraps.\<close>

definition bytes :: "64 word \<Rightarrow> Clause \<Rightarrow> 64 word" where
  "bytes sizeof_Clause c = sizeof_Clause + scast (size_cl c - 2) * sizeof_int - offset c"

text \<open>\<^verbatim>\<open>offset () + (char*) this\<close>, with \<open>this\<close> the address of the clause.\<close>

definition start :: "64 word \<Rightarrow> Clause \<Rightarrow> 64 word" where
  "start this c = offset c + this"

text \<open>The comparison objects of clause.hpp.  \<^verbatim>\<open>analyzed_earlier\<close> goes through the
  asserting accessor, so it can fail.\<close>

definition analyzed_earlier :: "Clause \<Rightarrow> Clause \<Rightarrow> error + bool" where
  "analyzed_earlier a b =
     (case analyzed a of Inl e \<Rightarrow> Inl e
      | Inr x \<Rightarrow> (case analyzed b of Inl e \<Rightarrow> Inl e
                 | Inr y \<Rightarrow> Inr (sint x < sint y)))"

definition smaller_size :: "Clause \<Rightarrow> Clause \<Rightarrow> bool" where
  "smaller_size a b = (sint (size_cl a) < sint (size_cl b))"


section \<open>The solver state used by the reduction policy\<close>

text \<open>
  The declarations of \<^verbatim>\<open>Internal\<close>, \<^verbatim>\<open>Var\<close>, \<^verbatim>\<open>Stats\<close>, \<^verbatim>\<open>Limit\<close> and \<^verbatim>\<open>Inc\<close> are in
  headers that are not among the sources, so the record below holds just the
  members that the embedded functions touch, under the names \<open>stats_\<close>, \<open>lim_\<close>,
  \<open>inc_\<close> and \<open>opts_\<close>.  The statistics are printed with \<^verbatim>\<open>%ld\<close> in stats.cpp and
  the limits and increments are compared with and assigned from them, hence 64-bit
  words; \<^verbatim>\<open>lim.keptsize\<close> and \<^verbatim>\<open>lim.keptglue\<close> are printed with \<^verbatim>\<open>%d\<close>, hence
  32-bit words.

  The clause memory is the store \<open>heap\<close> from addresses to clause objects; the
  registry \<open>clauses\<close> and the reasons of variables hold addresses, so that a
  clause marked through one pointer is seen marked through every other.
\<close>

record Var =
  level :: "32 word"
  var_reason :: "addr option"

record Internal =
  heap :: "addr \<Rightarrow> Clause"
  clauses :: "addr list"
  trail :: "32 word list"
  vtab :: "nat \<Rightarrow> Var"
  opts_reduce :: bool
  opts_reduceglue :: bool
  stats_conflicts :: "64 word"
  stats_analyzed :: "64 word"
  stats_reduced :: "64 word"
  stats_reductions :: "64 word"
  lim_reduce :: "64 word"
  lim_analyzed :: "64 word"
  lim_keptsize :: "32 word"
  lim_keptglue :: "32 word"
  lim_conflicts_at_last_reduce :: "64 word"
  inc_reduce :: "64 word"
  inc_redinc :: "64 word"

definition reducing :: "Internal \<Rightarrow> bool" where
  "reducing st =
     (if \<not> opts_reduce st then False
      else sint (lim_reduce st) \<le> sint (stats_conflicts st))"

text \<open>Modelled from the spec: the accessor \<^verbatim>\<open>var (lit)\<close> of internal.hpp is missing.
  Section 3.1 of the specification says that the absolute value of a literal
  identifies its variable, so \<open>var\<close> looks the table up at the absolute value.\<close>

definition var :: "Internal \<Rightarrow> 32 word \<Rightarrow> Var" where
  "var st lit = vtab st (nat \<bar>sint lit\<bar>)"

text \<open>Modelled from the spec: \<^verbatim>\<open>mark_garbage\<close> is defined in a file that is missing.
  Sections 3.3.2 and 6 of the specification say that it sets the garbage bit, that
  it is idempotent and that no memory is freed yet.\<close>

definition mark_garbage :: "addr \<Rightarrow> Internal \<Rightarrow> Internal" where
  "mark_garbage p st = st\<lparr>heap := (heap st)(p := (heap st p)\<lparr>garbage := True\<rparr>)\<rparr>"

subsection \<open>Reason protection\<close>

fun protect_reasons_loop :: "32 word list \<Rightarrow> Internal \<Rightarrow> Internal" where
  "protect_reasons_loop [] st = st"
| "protect_reasons_loop (i # is) st =
     (let v = var st i in
      if level v = 0 then protect_reasons_loop is st
      else case var_reason v of
             None \<Rightarrow> protect_reasons_loop is st
           | Some r \<Rightarrow>
               protect_reasons_loop is
                 (st\<lparr>heap := (heap st)(r := (heap st r)\<lparr>reason := True\<rparr>)\<rparr>))"

definition protect_reasons :: "Internal \<Rightarrow> Internal" where
  "protect_reasons st = protect_reasons_loop (trail st) st"

fun unprotect_reasons_loop :: "32 word list \<Rightarrow> Internal \<Rightarrow> error + Internal" where
  "unprotect_reasons_loop [] st = Inr st"
| "unprotect_reasons_loop (i # is) st =
     (let v = var st i in
      if level v = 0 then unprotect_reasons_loop is st
      else case var_reason v of
             None \<Rightarrow> unprotect_reasons_loop is st
           | Some r \<Rightarrow>
               if \<not> reason (heap st r) then Inl AssertionFailed
               else unprotect_reasons_loop is
                      (st\<lparr>heap := (heap st)(r := (heap st r)\<lparr>reason := False\<rparr>)\<rparr>))"

definition unprotect_reasons :: "Internal \<Rightarrow> error + Internal" where
  "unprotect_reasons st = unprotect_reasons_loop (trail st) st"

subsection \<open>The reduction policy\<close>

text \<open>\<^verbatim>\<open>less_usefull\<close>: larger glue first, then the earlier time stamp.\<close>

definition less_usefull :: "Clause \<Rightarrow> Clause \<Rightarrow> error + bool" where
  "less_usefull c d =
     (if sint (glue d) < sint (glue c) then Inr True
      else if sint (glue c) < sint (glue d) then Inr False
      else analyzed_earlier c d)"

text \<open>The first loop of \<^verbatim>\<open>mark_useless_redundant_clauses_as_garbage\<close>: one test per
  \<^verbatim>\<open>continue\<close>, in the source's order, and \<^verbatim>\<open>push_back\<close> at the end.\<close>

fun collect_candidates ::
  "(addr \<Rightarrow> Clause) \<Rightarrow> 64 word \<Rightarrow> addr list \<Rightarrow> addr list \<Rightarrow> error + addr list" where
  "collect_candidates h lim [] stack = Inr stack"
| "collect_candidates h lim (p # ps) stack =
     (let c = h p in
      if \<not> redundant c then collect_candidates h lim ps stack
      else if blocked c \<noteq> 0 then collect_candidates h lim ps stack
      else if reason c then collect_candidates h lim ps stack
      else if garbage c then collect_candidates h lim ps stack
      else if \<not> have_analyzed c then collect_candidates h lim ps stack
      else case analyzed c of
             Inl e \<Rightarrow> Inl e
           | Inr t \<Rightarrow>
               if sint lim < sint t then collect_candidates h lim ps stack
               else collect_candidates h lim ps (stack @ [p]))"

text \<open>
  \<^verbatim>\<open>std::sort\<close> is library code: the C++ standard fixes what it returns (a
  permutation of the range in which no element is ordered before an earlier one),
  not the order of elements that the comparison leaves unordered.  The policy
  therefore takes the sorting function as the parameter \<open>srt\<close>, and \<open>std_sort_post\<close>
  is the postcondition of the standard.  \<open>sort_by\<close> is one sorting function (by
  insertion) with which the policy can be run.
\<close>

type_synonym sorter = "(addr \<Rightarrow> addr \<Rightarrow> bool) \<Rightarrow> addr list \<Rightarrow> addr list"

definition std_sort_post :: "('a \<Rightarrow> 'a \<Rightarrow> bool) \<Rightarrow> 'a list \<Rightarrow> 'a list \<Rightarrow> bool" where
  "std_sort_post lt xs ys \<longleftrightarrow> mset ys = mset xs \<and> sorted_wrt (\<lambda>a b. \<not> lt b a) ys"

fun insert_by :: "('a \<Rightarrow> 'a \<Rightarrow> bool) \<Rightarrow> 'a \<Rightarrow> 'a list \<Rightarrow> 'a list" where
  "insert_by lt x [] = [x]"
| "insert_by lt x (y # ys) = (if lt x y then x # y # ys else y # insert_by lt x ys)"

fun sort_by :: "('a \<Rightarrow> 'a \<Rightarrow> bool) \<Rightarrow> 'a list \<Rightarrow> 'a list" where
  "sort_by lt [] = []"
| "sort_by lt (x # xs) = insert_by lt x (sort_by lt xs)"

text \<open>The comparison objects can fail an assertion.  Which pairs \<^verbatim>\<open>std::sort\<close>
  compares is not fixed, so the call fails in the model as soon as the comparison
  of some pair of the stack would fail: the model fails wherever the code can.\<close>

definition sort_stack ::
  "sorter \<Rightarrow> (addr \<Rightarrow> addr \<Rightarrow> error + bool) \<Rightarrow> addr list \<Rightarrow> error + addr list" where
  "sort_stack srt cmp stack =
     (if \<forall>a \<in> set stack. \<forall>b \<in> set stack. cmp a b \<noteq> Inl AssertionFailed
      then Inr (srt (\<lambda>a b. cmp a b = Inr True) stack)
      else Inl AssertionFailed)"

text \<open>The comparison the policy sorts with, on clause pointers.\<close>

definition stack_order :: "Internal \<Rightarrow> addr \<Rightarrow> addr \<Rightarrow> error + bool" where
  "stack_order st =
     (if opts_reduceglue st then (\<lambda>c d. less_usefull (heap st c) (heap st d))
      else (\<lambda>a b. analyzed_earlier (heap st a) (heap st b)))"

text \<open>The second loop: \<^verbatim>\<open>mark_garbage\<close> and \<^verbatim>\<open>stats.reduced++\<close> for each entry
  from the start of the stack up to \<^verbatim>\<open>target\<close>.\<close>

fun mark_loop :: "addr list \<Rightarrow> Internal \<Rightarrow> Internal" where
  "mark_loop [] st = st"
| "mark_loop (p # ps) st =
     (let st1 = mark_garbage p st;
          st2 = st1\<lparr>stats_reduced := stats_reduced st1 + 1\<rparr>
      in mark_loop ps st2)"

text \<open>The third loop, from \<^verbatim>\<open>target\<close> to the end of the stack.  \<^verbatim>\<open>c->glue\<close> is promoted
  to \<^verbatim>\<open>int\<close> for the comparison and for the assignment (sign extension).\<close>

fun kept_loop :: "addr list \<Rightarrow> Internal \<Rightarrow> Internal" where
  "kept_loop [] st = st"
| "kept_loop (p # ps) st =
     (let c = heap st p;
          st1 = (if sint (lim_keptsize st) < sint (size_cl c)
                 then st\<lparr>lim_keptsize := size_cl c\<rparr> else st);
          st2 = (if sint (lim_keptglue st1) < sint (glue c)
                 then st1\<lparr>lim_keptglue := scast (glue c)\<rparr> else st1)
      in kept_loop ps st2)"

text \<open>\<^verbatim>\<open>stack.reserve\<close>, \<^verbatim>\<open>LOG\<close> and \<^verbatim>\<open>VRB\<close> do not change the state.\<close>

definition mark_useless_redundant_clauses_as_garbage ::
  "sorter \<Rightarrow> Internal \<Rightarrow> error + Internal" where
  "mark_useless_redundant_clauses_as_garbage srt st =
     (case collect_candidates (heap st) (lim_analyzed st) (clauses st) [] of
        Inl e \<Rightarrow> Inl e
      | Inr stack \<Rightarrow>
          (case sort_stack srt (stack_order st) stack of
             Inl e \<Rightarrow> Inl e
           | Inr sorted_stack \<Rightarrow>
               let target = length sorted_stack div 2;
                   st1 = mark_loop (take target sorted_stack) st;
                   st2 = st1\<lparr>lim_keptsize := 0, lim_keptglue := 0\<rparr>;
                   st3 = kept_loop (drop target sorted_stack) st2
               in Inr st3))"

subsection \<open>The reduce epoch\<close>

text \<open>
  \<^verbatim>\<open>mark_satisfied_clauses_as_garbage\<close> and \<^verbatim>\<open>garbage_collection\<close> are defined in
  files that are missing; \<open>reduce\<close> takes them as the parameters \<open>mark_satisfied\<close> and
  \<open>collector\<close>.  \<^verbatim>\<open>START\<close>, \<^verbatim>\<open>STOP\<close> and \<^verbatim>\<open>report\<close> profile and print.  The body of
  \<^verbatim>\<open>reduce\<close> is split in two: \<open>reduce_epoch\<close> is the part up to
  \<^verbatim>\<open>unprotect_reasons ()\<close>, \<open>reduce_limits\<close> the five assignments after it.
\<close>

definition reduce_epoch ::
  "sorter \<Rightarrow> (Internal \<Rightarrow> error + Internal) \<Rightarrow> (Internal \<Rightarrow> error + Internal) \<Rightarrow>
   Internal \<Rightarrow> error + Internal" where
  "reduce_epoch srt mark_satisfied collector st =
     (let st1 = st\<lparr>stats_reductions := stats_reductions st + 1\<rparr>;
          st2 = protect_reasons st1
      in case mark_satisfied st2 of
           Inl e \<Rightarrow> Inl e
         | Inr st3 \<Rightarrow>
             (case mark_useless_redundant_clauses_as_garbage srt st3 of
                Inl e \<Rightarrow> Inl e
              | Inr st4 \<Rightarrow>
                  (case collector st4 of
                     Inl e \<Rightarrow> Inl e
                   | Inr st5 \<Rightarrow> unprotect_reasons st5)))"

definition reduce_limits :: "Internal \<Rightarrow> Internal" where
  "reduce_limits st =
     (let st1 = st\<lparr>inc_reduce := inc_reduce st + inc_redinc st\<rparr>;
          st2 = (if 1 < sint (inc_redinc st1)
                 then st1\<lparr>inc_redinc := inc_redinc st1 - 1\<rparr> else st1);
          st3 = st2\<lparr>lim_reduce := stats_conflicts st2 + inc_reduce st2\<rparr>;
          st4 = st3\<lparr>lim_analyzed := stats_analyzed st3\<rparr>;
          st5 = st4\<lparr>lim_conflicts_at_last_reduce := stats_conflicts st4\<rparr>
      in st5)"

definition reduce ::
  "sorter \<Rightarrow> (Internal \<Rightarrow> error + Internal) \<Rightarrow> (Internal \<Rightarrow> error + Internal) \<Rightarrow>
   Internal \<Rightarrow> error + Internal" where
  "reduce srt mark_satisfied collector st =
     (case reduce_epoch srt mark_satisfied collector st of
        Inl e \<Rightarrow> Inl e
      | Inr st1 \<Rightarrow> Inr (reduce_limits st1))"

section \<open>Notions of the specification\<close>

text \<open>
  The specification's six conditions for a reduction candidate, in its words (they
  are compared with the first loop of the policy below); the candidates of a state
  in registry order; the candidate sequence as the sorting function leaves it; its
  first half, which is marked, and the rest, which is kept.
\<close>

definition spec_candidate :: "(addr \<Rightarrow> Clause) \<Rightarrow> 64 word \<Rightarrow> addr \<Rightarrow> bool" where
  "spec_candidate h lim p \<longleftrightarrow>
     redundant (h p) \<and> blocked (h p) = 0 \<and> \<not> reason (h p) \<and> \<not> garbage (h p) \<and>
     have_analyzed (h p) \<and> sint (raw_analyzed (h p)) \<le> sint lim"

definition candidates :: "Internal \<Rightarrow> addr list" where
  "candidates st = filter (spec_candidate (heap st) (lim_analyzed st)) (clauses st)"

definition sorted_candidates :: "sorter \<Rightarrow> Internal \<Rightarrow> addr list" where
  "sorted_candidates srt st = srt (\<lambda>a b. stack_order st a b = Inr True) (candidates st)"

definition marked_half :: "sorter \<Rightarrow> Internal \<Rightarrow> addr list" where
  "marked_half srt st =
     take (length (sorted_candidates srt st) div 2) (sorted_candidates srt st)"

definition kept_half :: "sorter \<Rightarrow> Internal \<Rightarrow> addr list" where
  "kept_half srt st =
     drop (length (sorted_candidates srt st) div 2) (sorted_candidates srt st)"

text \<open>The sorting function does on the candidates of \<open>st\<close> what the standard
  requires of \<^verbatim>\<open>std::sort\<close>.\<close>

definition sorts_candidates :: "sorter \<Rightarrow> Internal \<Rightarrow> bool" where
  "sorts_candidates srt st \<longleftrightarrow>
     std_sort_post (\<lambda>a b. stack_order st a b = Inr True)
       (candidates st) (sorted_candidates srt st)"

text \<open>The key that the comparison of the policy looks at: the negated glue (when
  sorting by glue) and the time stamp, ordered lexicographically.\<close>

definition order_key :: "Internal \<Rightarrow> addr \<Rightarrow> int \<times> int" where
  "order_key st p =
     (if opts_reduceglue st then - sint (glue (heap st p)) else 0,
      sint (raw_analyzed (heap st p)))"

text \<open>A second sorting function: insertion sort of the reversed sequence.\<close>

definition sort_by_rev :: "('a \<Rightarrow> 'a \<Rightarrow> bool) \<Rightarrow> 'a list \<Rightarrow> 'a list" where
  "sort_by_rev lt xs = sort_by lt (rev xs)"

text \<open>The members that the scheduler update reads.\<close>

definition scheduler_inputs :: "Internal \<Rightarrow> 64 word \<times> 64 word \<times> 64 word \<times> 64 word" where
  "scheduler_inputs st = (stats_conflicts st, stats_analyzed st, inc_reduce st, inc_redinc st)"

section \<open>Example inputs\<close>

text \<open>An original binary clause without the optional fields, and the clause of
  the shrinking scenario after its size went from 6 to 3.\<close>

definition binary_original :: Clause where
  "binary_original =
     \<lparr>raw_analyzed = 0, raw_pos = 0, have_analyzed = False, have_pos = False,
      redundant = False, garbage = False, reason = False, moved = False, glue = 0,
      blocked = 0, size_cl = 2, literals = [- 3, 5]\<rparr>"

definition shrunk_clause :: Clause where
  "shrunk_clause =
     \<lparr>raw_analyzed = 0, raw_pos = 5, have_analyzed = True, have_pos = True,
      redundant = True, garbage = False, reason = False, moved = False, glue = 4,
      blocked = 0, size_cl = 3, literals = [1, - 2, 4]\<rparr>"

text \<open>A learned clause with both optional fields, and a solver state with five
  clauses in the registry: three candidates (addresses 0, 1 and 3), an original
  clause (2) and a clause analyzed after the limit (4), which is the reason of
  variable 2 on the trail.  \<open>tie_state\<close> has two clauses with the same glue and the
  same time stamp.\<close>

definition learned :: "64 word \<Rightarrow> 25 word \<Rightarrow> 32 word \<Rightarrow> 32 word list \<Rightarrow> Clause" where
  "learned t g n lits =
     \<lparr>raw_analyzed = t, raw_pos = 2, have_analyzed = True, have_pos = True,
      redundant = True, garbage = False, reason = False, moved = False, glue = g,
      blocked = 0, size_cl = n, literals = lits\<rparr>"

definition example_state :: Internal where
  "example_state =
     \<lparr>heap = (\<lambda>p. binary_original)
         (0 := learned 1 3 4 [1, - 2, 4, - 6],
          1 := learned 2 5 6 [1, 2, 3, 4, 5, 6],
          3 := learned 3 2 3 [- 1, 3, - 5],
          4 := learned 9 7 8 [1, - 2, 3, - 4, 5, - 6, 7, - 8]),
      clauses = [0, 1, 2, 3, 4],
      trail = [1, - 2],
      vtab = (\<lambda>v. \<lparr>level = 0, var_reason = None\<rparr>)(2 := \<lparr>level = 1, var_reason = Some 4\<rparr>),
      opts_reduce = True, opts_reduceglue = True,
      stats_conflicts = 1000, stats_analyzed = 12, stats_reduced = 0, stats_reductions = 0,
      lim_reduce = 1000, lim_analyzed = 7, lim_keptsize = 0, lim_keptglue = 0,
      lim_conflicts_at_last_reduce = 0,
      inc_reduce = 300, inc_redinc = 10\<rparr>"

definition tie_state :: Internal where
  "tie_state =
     example_state\<lparr>heap := (\<lambda>p. learned 1 3 4 [1, - 2, 4, - 6]), clauses := [0, 1], trail := []\<rparr>"


section \<open>Memory layout of a clause\<close>

lemma offset_cases:
  "offset c = (if have_pos c then 0 else 4) + (if have_analyzed c then 0 else 8)"
  by (simp add: offset_def sizeof_int_def sizeof_long_def)

lemma uint_offset:
  "uint (offset c) = (if have_pos c then 0 else 4) + (if have_analyzed c then 0 else 8)"
  by (simp add: offset_cases)

lemma uint_scast_size:
  fixes s :: "32 word"
  assumes "2 \<le> sint s"
  shows "uint (scast (s - 2) :: 64 word) = sint s - 2"
proof -
  have lt: "sint s < 2 ^ 31" using sint_lt [of s] by simp
  have a: "sint (s - 2) = sint s - 2"
    using assms lt by (simp add: sint_word_ariths signed_take_bit_int_eq_self)
  have "uint (scast (s - 2) :: 64 word) = uint (word_of_int (sint (s - 2)) :: 64 word)"
    by (simp only: scast_eq)
  also have "\<dots> = (sint s - 2) mod 2 ^ 64"
    by (simp only: uint_word_of_int a) simp
  also have "\<dots> = sint s - 2"
    using assms lt by simp
  finally show ?thesis .
qed

lemma uint_bytes:
  assumes "2 \<le> sint (size_cl c)" "12 \<le> uint szC" "uint szC < 2 ^ 32"
  shows "uint (bytes szC c) = uint szC + (sint (size_cl c) - 2) * 4 - uint (offset c)"
proof -
  have lt: "sint (size_cl c) < 2 ^ 31" using sint_lt [of "size_cl c"] by simp
  define k where "k = (scast (size_cl c - 2) :: 64 word)"
  have k: "uint k = sint (size_cl c) - 2"
    unfolding k_def by (rule uint_scast_size [OF assms(1)])
  have m: "uint (k * 4) = uint k * 4"
    using k assms(1) lt by (simp add: uint_word_ariths)
  have s: "uint (szC + k * 4) = uint szC + uint k * 4"
    using k m assms lt by (simp add: uint_word_ariths)
  have o: "uint (offset c) \<le> 12" by (simp add: uint_offset)
  have "uint (szC + k * 4 - offset c) = uint szC + uint k * 4 - uint (offset c)"
    using s o assms k by (simp add: uint_sub_if_size [of "szC + k * 4"] word_size)
  then show ?thesis
    by (simp add: bytes_def sizeof_int_def k_def [symmetric] k)
qed

section \<open>Fixing a clause up after shrinking\<close>

lemma sint_glue_of_size:
  fixes s :: "32 word" and g :: "25 word"
  assumes "2 \<le> sint s" "sint s < sint g"
  shows "sint (scast s :: 25 word) = sint s"
proof -
  have "sint g < 2 ^ 24" using sint_lt [of g] by simp
  with assms have r: "- (2 ^ 24) \<le> sint s" "sint s < 2 ^ 24" by simp_all
  have "sint (scast s :: 25 word) = sint (word_of_int (sint s) :: 25 word)"
    by (simp only: scast_eq)
  also have "\<dots> = sint s"
    using r by (simp only: sint_sbintrunc') (simp add: signed_take_bit_int_eq_self)
  finally show ?thesis .
qed

lemma update_after_shrinking_Inr:
  "2 \<le> sint (size_cl c) \<Longrightarrow>
   update_after_shrinking c =
     Inr (c\<lparr>raw_pos := (if have_pos c \<and> sint (size_cl c) \<le> sint (raw_pos c)
                         then 2 else raw_pos c),
            glue := (if sint (size_cl c) < sint (glue c)
                     then scast (size_cl c) else glue c)\<rparr>)"
  by (simp add: update_after_shrinking_def Let_def)

text \<open>
  C8: for a clause of size at least 2, \<open>update_after_shrinking\<close> returns, with \<open>pos\<close>
  set to 2 if the field is present and its value is at least the size, and with
  the glue set to the size if the glue is larger than the size.  A clause shrunk to
  size 3 with \<open>pos = 5\<close> and \<open>glue = 4\<close> has \<open>pos = 2\<close> and \<open>glue = 3\<close> afterwards.
\<close>

theorem update_after_shrinking_fixup:
  "(2 \<le> sint (size_cl c) \<longrightarrow>
      (\<exists>c'. update_after_shrinking c = Inr c' \<and>
         (have_pos c \<and> sint (size_cl c) \<le> sint (raw_pos c) \<longrightarrow> raw_pos c' = 2) \<and>
         (sint (size_cl c) < sint (glue c) \<longrightarrow> sint (glue c') = sint (size_cl c)))) \<and>
   (have_pos c \<and> size_cl c = 3 \<and> raw_pos c = 5 \<and> glue c = 4 \<longrightarrow>
      (\<exists>c'. update_after_shrinking c = Inr c' \<and> raw_pos c' = 2 \<and> glue c' = 3))"
proof (intro conjI impI)
  assume s: "2 \<le> sint (size_cl c)"
  show "\<exists>c'. update_after_shrinking c = Inr c' \<and>
         (have_pos c \<and> sint (size_cl c) \<le> sint (raw_pos c) \<longrightarrow> raw_pos c' = 2) \<and>
         (sint (size_cl c) < sint (glue c) \<longrightarrow> sint (glue c') = sint (size_cl c))"
    using s sint_glue_of_size [of "size_cl c" "glue c"]
    by (simp add: update_after_shrinking_Inr)
next
  assume "have_pos c \<and> size_cl c = 3 \<and> raw_pos c = 5 \<and> glue c = 4"
  then show "\<exists>c'. update_after_shrinking c = Inr c' \<and> raw_pos c' = 2 \<and> glue c' = 3"
    by (simp add: update_after_shrinking_def Let_def)
qed

theorem update_after_shrinking_fixup_witness:
  "2 \<le> sint (size_cl shrunk_clause) \<and> have_pos shrunk_clause \<and>
   sint (size_cl shrunk_clause) \<le> sint (raw_pos shrunk_clause) \<and>
   sint (size_cl shrunk_clause) < sint (glue shrunk_clause) \<and>
   size_cl shrunk_clause = 3 \<and> raw_pos shrunk_clause = 5 \<and> glue shrunk_clause = 4 \<and>
   update_after_shrinking shrunk_clause = Inr (shrunk_clause\<lparr>raw_pos := 2, glue := 3\<rparr>)"
  using update_after_shrinking_fixup [of shrunk_clause]
  by (simp add: shrunk_clause_def update_after_shrinking_def)

text \<open>
  C10: for a clause of size at least 2, \<open>update_after_shrinking\<close> changes at most the
  fields \<open>_pos\<close> and \<open>glue\<close>: the size, the literals, the blocking literal, the
  presence bits, the time stamp and the four flags are those of the argument.
\<close>

theorem update_after_shrinking_frame:
  assumes "2 \<le> sint (size_cl c)"
  shows "\<exists>c'. update_after_shrinking c = Inr c' \<and>
           c' = c\<lparr>raw_pos := raw_pos c', glue := glue c'\<rparr> \<and>
           size_cl c' = size_cl c \<and> literals c' = literals c \<and> blocked c' = blocked c \<and>
           have_analyzed c' = have_analyzed c \<and> have_pos c' = have_pos c \<and>
           raw_analyzed c' = raw_analyzed c \<and> redundant c' = redundant c \<and>
           garbage c' = garbage c \<and> reason c' = reason c \<and> moved c' = moved c"
  using assms by (simp add: update_after_shrinking_Inr)

theorem update_after_shrinking_frame_witness:
  "2 \<le> sint (size_cl shrunk_clause) \<and>
   (\<exists>c'. update_after_shrinking shrunk_clause = Inr c' \<and> size_cl c' = 3 \<and>
      literals c' = [1, - 2, 4] \<and> raw_analyzed c' = 0 \<and> redundant c' \<and> \<not> garbage c')"
proof -
  have h: "2 \<le> sint (size_cl shrunk_clause)" by (simp add: shrunk_clause_def)
  from update_after_shrinking_frame [OF h] obtain c' where
    "update_after_shrinking shrunk_clause = Inr c'" "size_cl c' = size_cl shrunk_clause"
    "literals c' = literals shrunk_clause" "raw_analyzed c' = raw_analyzed shrunk_clause"
    "redundant c' = redundant shrunk_clause" "garbage c' = garbage shrunk_clause"
    by blast
  then show ?thesis using h by (simp add: shrunk_clause_def)
qed

section \<open>Sorting\<close>

lemma mset_insert_by: "mset (insert_by lt x xs) = add_mset x (mset xs)"
  by (induction xs) simp_all

lemma mset_sort_by: "mset (sort_by lt xs) = mset xs"
  by (induction xs) (simp_all add: mset_insert_by)

lemma set_insert_by: "set (insert_by lt x xs) = insert x (set xs)"
  using arg_cong [OF mset_insert_by, of set_mset lt x xs] by simp

lemma sorted_insert_by:
  assumes tr: "\<And>a b c. lt a b \<Longrightarrow> lt b c \<Longrightarrow> lt a c"
    and asym: "\<And>a b. lt a b \<Longrightarrow> \<not> lt b a"
  shows "sorted_wrt (\<lambda>a b. \<not> lt b a) xs \<Longrightarrow> sorted_wrt (\<lambda>a b. \<not> lt b a) (insert_by lt x xs)"
proof (induction xs)
  case Nil
  show ?case by simp
next
  case (Cons y ys)
  show ?case
  proof (cases "lt x y")
    case True
    have "\<not> lt z x" if "z \<in> set (y # ys)" for z
    proof
      assume zx: "lt z x"
      then have "lt z y" using True by (rule tr)
      moreover have "z \<noteq> y \<Longrightarrow> \<not> lt z y" using that Cons.prems by auto
      moreover have "\<not> lt y y" using asym by blast
      ultimately show False by blast
    qed
    with True Cons.prems show ?thesis by simp
  next
    case False
    with Cons show ?thesis by (auto simp: set_insert_by)
  qed
qed

lemma sort_by_post:
  assumes "\<And>a b c. lt a b \<Longrightarrow> lt b c \<Longrightarrow> lt a c" and "\<And>a b. lt a b \<Longrightarrow> \<not> lt b a"
  shows "std_sort_post lt xs (sort_by lt xs)"
proof -
  have "sorted_wrt (\<lambda>a b. \<not> lt b a) (sort_by lt xs)"
    by (induction xs) (simp_all add: sorted_insert_by [of lt, OF assms])
  then show ?thesis by (simp add: std_sort_post_def mset_sort_by)
qed

lemma sort_by_rev_post:
  assumes "\<And>a b c. lt a b \<Longrightarrow> lt b c \<Longrightarrow> lt a c" and "\<And>a b. lt a b \<Longrightarrow> \<not> lt b a"
  shows "std_sort_post lt xs (sort_by_rev lt xs)"
  using sort_by_post [of lt "rev xs", OF assms]
  by (simp add: std_sort_post_def sort_by_rev_def)

section \<open>The order of the stack\<close>

lemma stack_order_Inr:
  assumes "have_analyzed (heap st a)" "have_analyzed (heap st b)"
  shows "stack_order st a b = Inr (order_key st a < order_key st b)"
  using assms
  by (auto simp: stack_order_def less_usefull_def analyzed_earlier_def analyzed_def order_key_def)

lemma stack_order_True:
  "stack_order st a b = Inr True \<Longrightarrow> order_key st a < order_key st b"
  by (auto simp: stack_order_def less_usefull_def analyzed_earlier_def analyzed_def order_key_def
      split: if_splits)

lemma stack_order_True_have:
  "stack_order st a b = Inr True \<Longrightarrow> fst (order_key st a) = fst (order_key st b) \<Longrightarrow>
   have_analyzed (heap st a) \<and> have_analyzed (heap st b)"
  by (auto simp: stack_order_def less_usefull_def analyzed_earlier_def analyzed_def order_key_def
      split: if_splits)

lemma stack_order_glue:
  "fst (order_key st a) < fst (order_key st b) \<Longrightarrow> stack_order st a b = Inr True"
  by (auto simp: stack_order_def less_usefull_def order_key_def split: if_splits)

lemma stack_order_asym:
  "stack_order st a b = Inr True \<Longrightarrow> stack_order st b a \<noteq> Inr True"
  using stack_order_True [of st a b] stack_order_True [of st b a] by auto

lemma stack_order_trans:
  assumes "stack_order st a b = Inr True" "stack_order st b c = Inr True"
  shows "stack_order st a c = Inr True"
proof -
  have ab: "order_key st a < order_key st b" and bc: "order_key st b < order_key st c"
    using assms by (auto dest: stack_order_True)
  then have le: "fst (order_key st a) \<le> fst (order_key st b)" "fst (order_key st b) \<le> fst (order_key st c)"
    by (auto simp: less_prod_def)
  show ?thesis
  proof (cases "fst (order_key st a) < fst (order_key st c)")
    case True
    then show ?thesis by (rule stack_order_glue)
  next
    case False
    with le have e: "fst (order_key st a) = fst (order_key st b)" "fst (order_key st b) = fst (order_key st c)"
      by auto
    have h: "have_analyzed (heap st a)" "have_analyzed (heap st c)"
      using stack_order_True_have [OF assms(1) e(1)] stack_order_True_have [OF assms(2) e(2)]
      by auto
    show ?thesis using ab bc by (simp add: stack_order_Inr [OF h])
  qed
qed

lemma sort_by_sorts_candidates: "sorts_candidates sort_by st"
  unfolding sorts_candidates_def sorted_candidates_def
  by (rule sort_by_post) (auto intro: stack_order_trans dest: stack_order_asym)

lemma sort_by_rev_sorts_candidates: "sorts_candidates sort_by_rev st"
  unfolding sorts_candidates_def sorted_candidates_def
  by (rule sort_by_rev_post) (auto intro: stack_order_trans dest: stack_order_asym)

section \<open>The loops of the reduction policy\<close>

lemma collect_candidates_filter:
  "collect_candidates h lim ps stack = Inr (stack @ filter (spec_candidate h lim) ps)"
  by (induction ps arbitrary: stack)
     (simp_all add: Let_def analyzed_def spec_candidate_def not_less)

lemma collect_candidates_eq:
  "collect_candidates (heap st) (lim_analyzed st) (clauses st) [] = Inr (candidates st)"
  by (simp add: collect_candidates_filter candidates_def)

lemma candidates_have_analyzed:
  "p \<in> set (candidates st) \<Longrightarrow> have_analyzed (heap st p)"
  by (simp add: candidates_def spec_candidate_def)

lemma sort_stack_candidates:
  "sort_stack srt (stack_order st) (candidates st) = Inr (sorted_candidates srt st)"
  by (simp add: sort_stack_def sorted_candidates_def stack_order_Inr candidates_have_analyzed)

lemma mark_loop_eq:
  "mark_loop ps st =
     st\<lparr>heap := (\<lambda>p. if p \<in> set ps then (heap st p)\<lparr>garbage := True\<rparr> else heap st p),
        stats_reduced := stats_reduced st + of_nat (length ps)\<rparr>"
proof (induction ps arbitrary: st)
  case Nil
  show ?case by simp
next
  case (Cons q qs)
  show ?case
    by (simp add: Cons.IH Let_def mark_garbage_def fun_eq_iff)
qed

lemma Max_insert_insert:
  fixes a b :: int
  assumes "finite S"
  shows "Max (insert a (insert b S)) = Max (insert (max a b) S)"
proof (cases "S = {}")
  case True
  then show ?thesis by (simp add: max.commute)
next
  case False
  with assms show ?thesis by (simp add: max.assoc max.commute max.left_commute)
qed

lemma sint_scast_glue: "sint (scast (g :: 25 word) :: 32 word) = sint g"
  by (rule sint_up_scast) (simp add: is_up)

lemma kept_loop_eq:
  "\<exists>ks kg. kept_loop ps st = st\<lparr>lim_keptsize := ks, lim_keptglue := kg\<rparr> \<and>
     sint ks = Max (insert (sint (lim_keptsize st)) ((\<lambda>p. sint (size_cl (heap st p))) ` set ps)) \<and>
     sint kg = Max (insert (sint (lim_keptglue st)) ((\<lambda>p. sint (glue (heap st p))) ` set ps))"
proof (induction ps arbitrary: st)
  case Nil
  show ?case
    by (rule exI [of _ "lim_keptsize st"], rule exI [of _ "lim_keptglue st"]) simp
next
  case (Cons q qs)
  define c where "c = heap st q"
  define st1 where "st1 = (if sint (lim_keptsize st) < sint (size_cl c)
                 then st\<lparr>lim_keptsize := size_cl c\<rparr> else st)"
  define st2 where "st2 = (if sint (lim_keptglue st1) < sint (glue c)
                 then st1\<lparr>lim_keptglue := scast (glue c)\<rparr> else st1)"
  have k: "kept_loop (q # qs) st = kept_loop qs st2"
    by (simp add: Let_def c_def st1_def st2_def)
  have h: "heap st2 = heap st" by (simp add: st2_def st1_def)
  have s: "sint (lim_keptsize st2) = max (sint (lim_keptsize st)) (sint (size_cl c))"
    by (simp add: st2_def st1_def)
  have g: "sint (lim_keptglue st2) = max (sint (lim_keptglue st)) (sint (glue c))"
    by (simp add: st2_def st1_def sint_scast_glue)
  have f: "st2\<lparr>lim_keptsize := ks, lim_keptglue := kg\<rparr> = st\<lparr>lim_keptsize := ks, lim_keptglue := kg\<rparr>"
    for ks kg
    by (simp add: st2_def st1_def)
  from Cons.IH [of st2] obtain ks kg where
    1: "kept_loop qs st2 = st2\<lparr>lim_keptsize := ks, lim_keptglue := kg\<rparr>" and
    2: "sint ks = Max (insert (sint (lim_keptsize st2)) ((\<lambda>p. sint (size_cl (heap st2 p))) ` set qs))" and
    3: "sint kg = Max (insert (sint (lim_keptglue st2)) ((\<lambda>p. sint (glue (heap st2 p))) ` set qs))"
    by blast
  have 4: "sint ks = Max (insert (sint (lim_keptsize st)) ((\<lambda>p. sint (size_cl (heap st p))) ` set (q # qs)))"
    using 2 by (simp only: h s c_def list.set image_insert Max_insert_insert [OF finite_imageI [OF finite_set]])
  have 5: "sint kg = Max (insert (sint (lim_keptglue st)) ((\<lambda>p. sint (glue (heap st p))) ` set (q # qs)))"
    using 3 by (simp only: h g c_def list.set image_insert Max_insert_insert [OF finite_imageI [OF finite_set]])
  show ?case
  proof (rule exI [of _ ks], rule exI [of _ kg], intro conjI)
    show "kept_loop (q # qs) st = st\<lparr>lim_keptsize := ks, lim_keptglue := kg\<rparr>"
      by (simp only: k 1 f)
  qed (fact 4, fact 5)
qed

lemma mark_useless_eq:
  "\<exists>ks kg.
     mark_useless_redundant_clauses_as_garbage srt st =
       Inr (st\<lparr>heap := (\<lambda>p. if p \<in> set (marked_half srt st)
                              then (heap st p)\<lparr>garbage := True\<rparr> else heap st p),
               stats_reduced := stats_reduced st + of_nat (length (marked_half srt st)),
               lim_keptsize := ks, lim_keptglue := kg\<rparr>) \<and>
     sint ks = Max (insert 0 ((\<lambda>p. sint (size_cl (heap st p))) ` set (kept_half srt st))) \<and>
     sint kg = Max (insert 0 ((\<lambda>p. sint (glue (heap st p))) ` set (kept_half srt st)))"
proof -
  define st2 where "st2 = (mark_loop (marked_half srt st) st)\<lparr>lim_keptsize := 0, lim_keptglue := 0\<rparr>"
  have m: "mark_useless_redundant_clauses_as_garbage srt st = Inr (kept_loop (kept_half srt st) st2)"
    by (simp add: mark_useless_redundant_clauses_as_garbage_def collect_candidates_eq
        sort_stack_candidates Let_def st2_def marked_half_def kept_half_def)
  have sz: "\<And>p. size_cl (heap st2 p) = size_cl (heap st p)"
    and gl: "\<And>p. glue (heap st2 p) = glue (heap st p)"
    and k0: "lim_keptsize st2 = 0" "lim_keptglue st2 = 0"
    by (simp_all add: st2_def mark_loop_eq)
  from kept_loop_eq [of "kept_half srt st" st2] obtain ks kg where
    1: "kept_loop (kept_half srt st) st2 = st2\<lparr>lim_keptsize := ks, lim_keptglue := kg\<rparr>" and
    2: "sint ks = Max (insert (sint (lim_keptsize st2)) ((\<lambda>p. sint (size_cl (heap st2 p))) ` set (kept_half srt st)))" and
    3: "sint kg = Max (insert (sint (lim_keptglue st2)) ((\<lambda>p. sint (glue (heap st2 p))) ` set (kept_half srt st)))"
    by blast
  have 4: "st2\<lparr>lim_keptsize := ks, lim_keptglue := kg\<rparr> =
      st\<lparr>heap := (\<lambda>p. if p \<in> set (marked_half srt st)
                              then (heap st p)\<lparr>garbage := True\<rparr> else heap st p),
               stats_reduced := stats_reduced st + of_nat (length (marked_half srt st)),
               lim_keptsize := ks, lim_keptglue := kg\<rparr>"
    by (simp add: st2_def mark_loop_eq)
  show ?thesis
  proof (rule exI [of _ ks], rule exI [of _ kg], intro conjI)
    show "mark_useless_redundant_clauses_as_garbage srt st =
       Inr (st\<lparr>heap := (\<lambda>p. if p \<in> set (marked_half srt st)
                              then (heap st p)\<lparr>garbage := True\<rparr> else heap st p),
               stats_reduced := stats_reduced st + of_nat (length (marked_half srt st)),
               lim_keptsize := ks, lim_keptglue := kg\<rparr>)"
      by (simp only: m 1 4)
    show "sint ks = Max (insert 0 ((\<lambda>p. sint (size_cl (heap st p))) ` set (kept_half srt st)))"
      using 2 by (simp only: sz k0) simp
    show "sint kg = Max (insert 0 ((\<lambda>p. sint (glue (heap st p))) ` set (kept_half srt st)))"
      using 3 by (simp only: gl k0) simp
  qed
qed

lemma mark_useless_fields:
  "\<exists>st'. mark_useless_redundant_clauses_as_garbage srt st = Inr st' \<and>
     heap st' = (\<lambda>p. if p \<in> set (marked_half srt st)
                     then (heap st p)\<lparr>garbage := True\<rparr> else heap st p) \<and>
     stats_reduced st' = stats_reduced st + of_nat (length (marked_half srt st)) \<and>
     sint (lim_keptsize st') =
       Max (insert 0 ((\<lambda>p. sint (size_cl (heap st p))) ` set (kept_half srt st))) \<and>
     sint (lim_keptglue st') =
       Max (insert 0 ((\<lambda>p. sint (glue (heap st p))) ` set (kept_half srt st))) \<and>
     scheduler_inputs st' = scheduler_inputs st \<and> trail st' = trail st \<and> vtab st' = vtab st"
proof -
  from mark_useless_eq [of srt st] obtain ks kg where
    1: "mark_useless_redundant_clauses_as_garbage srt st =
       Inr (st\<lparr>heap := (\<lambda>p. if p \<in> set (marked_half srt st)
                              then (heap st p)\<lparr>garbage := True\<rparr> else heap st p),
               stats_reduced := stats_reduced st + of_nat (length (marked_half srt st)),
               lim_keptsize := ks, lim_keptglue := kg\<rparr>)" and
    2: "sint ks = Max (insert 0 ((\<lambda>p. sint (size_cl (heap st p))) ` set (kept_half srt st)))" and
    3: "sint kg = Max (insert 0 ((\<lambda>p. sint (glue (heap st p))) ` set (kept_half srt st)))"
    by blast
  show ?thesis
    by (simp add: 1 2 3 scheduler_inputs_def)
qed

lemma sorts_candidates_facts:
  assumes "sorts_candidates srt st"
  shows "set (sorted_candidates srt st) = set (candidates st)"
    and "length (sorted_candidates srt st) = length (candidates st)"
    and "distinct (candidates st) \<Longrightarrow> distinct (sorted_candidates srt st)"
    and "set (marked_half srt st) \<subseteq> set (candidates st)"
    and "set (kept_half srt st) \<subseteq> set (candidates st)"
proof -
  have m: "mset (sorted_candidates srt st) = mset (candidates st)"
    using assms by (simp add: sorts_candidates_def std_sort_post_def)
  show s: "set (sorted_candidates srt st) = set (candidates st)"
    using m by (rule mset_eq_setD)
  show "length (sorted_candidates srt st) = length (candidates st)"
    using m by (rule mset_eq_length)
  show "distinct (candidates st) \<Longrightarrow> distinct (sorted_candidates srt st)"
    using mset_eq_imp_distinct_iff [OF m] by simp
  show "set (marked_half srt st) \<subseteq> set (candidates st)"
    unfolding marked_half_def s [symmetric] by (rule set_take_subset)
  show "set (kept_half srt st) \<subseteq> set (candidates st)"
    unfolding kept_half_def s [symmetric] by (rule set_drop_subset)
qed

lemma newly_garbage:
  assumes "sorts_candidates srt st"
    and h: "heap st' = (\<lambda>p. if p \<in> set (marked_half srt st)
                              then (heap st p)\<lparr>garbage := True\<rparr> else heap st p)"
  shows "{p. garbage (heap st' p) \<and> \<not> garbage (heap st p)} = set (marked_half srt st)"
proof -
  have "\<not> garbage (heap st p)" if "p \<in> set (marked_half srt st)" for p
    using that sorts_candidates_facts(4) [OF assms(1)]
    by (auto simp: candidates_def spec_candidate_def)
  then show ?thesis by (auto simp: h)
qed

lemma marked_before_kept:
  assumes "sorts_candidates srt st"
    and "m \<in> set (marked_half srt st)" "u \<in> set (kept_half srt st)"
  shows "stack_order st u m \<noteq> Inr True"
proof -
  have "sorted_wrt (\<lambda>a b. \<not> stack_order st b a = Inr True)
          (marked_half srt st @ kept_half srt st)"
    using assms(1) by (simp add: sorts_candidates_def std_sort_post_def marked_half_def kept_half_def)
  then show ?thesis
    using assms(2,3) by (simp add: sorted_wrt_append)
qed

section \<open>The example state\<close>

lemma candidates_example: "candidates example_state = [0, 1, 3]"
  by (simp add: candidates_def example_state_def spec_candidate_def learned_def binary_original_def)

lemma sorted_candidates_example: "sorted_candidates sort_by example_state = [1, 0, 3]"
  by (simp add: sorted_candidates_def candidates_example)
     (simp add: example_state_def stack_order_def less_usefull_def analyzed_earlier_def
        analyzed_def learned_def)

lemma marked_half_example: "marked_half sort_by example_state = [1]"
  by (simp add: marked_half_def sorted_candidates_example)

lemma kept_half_example: "kept_half sort_by example_state = [0, 3]"
  by (simp add: kept_half_def sorted_candidates_example)

section \<open>The allocation span of a clause\<close>

lemma start_plus_bytes:
  "start p c + bytes sizeof_Clause c = p + sizeof_Clause + scast (size_cl c - 2) * sizeof_int"
  by (simp add: start_def bytes_def)

lemma offset_presence_bits:
  "have_pos c' = have_pos c \<Longrightarrow> have_analyzed c' = have_analyzed c \<Longrightarrow> offset c' = offset c"
  by (simp add: offset_def)

lemma update_after_shrinking_offset:
  assumes "update_after_shrinking c = Inr c'"
  shows "offset c' = offset c"
proof -
  from assms have "2 \<le> sint (size_cl c)"
    by (simp add: update_after_shrinking_def split: if_splits)
  from update_after_shrinking_Inr [OF this] assms
  have "have_pos c' = have_pos c" "have_analyzed c' = have_analyzed c"
    by auto
  then show ?thesis by (rule offset_presence_bits)
qed

lemma mark_useless_offset:
  assumes "mark_useless_redundant_clauses_as_garbage srt st = Inr st'"
  shows "offset (heap st' q) = offset (heap st q)"
proof -
  from mark_useless_fields [of srt st] assms have
    h: "heap st' = (\<lambda>p. if p \<in> set (marked_half srt st)
                         then (heap st p)\<lparr>garbage := True\<rparr> else heap st p)"
    by auto
  show ?thesis
    by (rule offset_presence_bits) (simp_all add: h)
qed

text \<open>
  C1, as the specification states it: the raw allocation of the clause at \<open>p\<close> starts
  at \<open>p - offset\<close>.  \<open>start\<close> adds the offset to the address of the clause.  For an
  original binary clause at address 1000 the allocation starts at 1012, not at 988.
\<close>

theorem start_minus_offset_counterexample:
  "start 1000 binary_original = 1012 \<and>
   start 1000 binary_original \<noteq> 1000 - offset binary_original"
  by (simp add: start_def offset_def binary_original_def sizeof_int_def sizeof_long_def)

text \<open>
  C1, amended: the raw allocation of the clause at \<open>p\<close> starts at \<open>p + offset\<close> and has
  length \<open>bytes\<close>, the size of the fixed header plus the size of a literal for each
  literal beyond the second minus the offset, where the offset is the sum of the
  sizes of the absent optional fields (0, the size of \<open>pos\<close>, the size of \<open>analyzed\<close>,
  or their sum), determined by the presence bits, which are fixed at allocation.

  The theorem adds what follows from the three functions together: the end of the
  span, \<open>start + bytes\<close>, does not depend on the presence bits; the length does not
  wrap around for a clause of size at least 2 and a header of 12 to \<open>2^32\<close> bytes;
  clauses with the same presence bits have the same offset, and neither
  \<open>update_after_shrinking\<close> nor the reduction policy changes the offset or the start
  of a clause.
\<close>

theorem clause_allocation_span:
  "start p c = p + offset c \<and>
   bytes sizeof_Clause c = sizeof_Clause + scast (size_cl c - 2) * sizeof_int - offset c \<and>
   offset c = (if have_pos c then 0 else sizeof_int) + (if have_analyzed c then 0 else sizeof_long) \<and>
   offset c \<in> {0, 4, 8, 12} \<and>
   start p c + bytes sizeof_Clause c = p + sizeof_Clause + scast (size_cl c - 2) * sizeof_int \<and>
   (2 \<le> sint (size_cl c) \<and> 12 \<le> uint sizeof_Clause \<and> uint sizeof_Clause < 2 ^ 32 \<longrightarrow>
      uint (bytes sizeof_Clause c) =
        uint sizeof_Clause + (sint (size_cl c) - 2) * 4 - uint (offset c)) \<and>
   (have_pos c' = have_pos c \<and> have_analyzed c' = have_analyzed c \<longrightarrow>
      offset c' = offset c \<and> start p c' = start p c) \<and>
   (update_after_shrinking c = Inr c' \<longrightarrow> offset c' = offset c \<and> start p c' = start p c) \<and>
   (mark_useless_redundant_clauses_as_garbage srt st = Inr st' \<longrightarrow>
      offset (heap st' q) = offset (heap st q) \<and> start p (heap st' q) = start p (heap st q))"
proof (intro conjI impI)
  show "start p c = p + offset c"
    by (simp add: start_def)
  show "bytes sizeof_Clause c = sizeof_Clause + scast (size_cl c - 2) * sizeof_int - offset c"
    by (simp add: bytes_def)
  show "offset c = (if have_pos c then 0 else sizeof_int) + (if have_analyzed c then 0 else sizeof_long)"
    by (simp add: offset_def)
  show "offset c \<in> {0, 4, 8, 12}"
    by (simp add: offset_cases)
  show "start p c + bytes sizeof_Clause c = p + sizeof_Clause + scast (size_cl c - 2) * sizeof_int"
    by (rule start_plus_bytes)
next
  assume "2 \<le> sint (size_cl c) \<and> 12 \<le> uint sizeof_Clause \<and> uint sizeof_Clause < 2 ^ 32"
  then show "uint (bytes sizeof_Clause c) =
      uint sizeof_Clause + (sint (size_cl c) - 2) * 4 - uint (offset c)"
    by (simp add: uint_bytes)
next
  assume "have_pos c' = have_pos c \<and> have_analyzed c' = have_analyzed c"
  then show o: "offset c' = offset c" by (intro offset_presence_bits) simp_all
  then show "start p c' = start p c" by (simp add: start_def)
next
  assume "update_after_shrinking c = Inr c'"
  then show o: "offset c' = offset c" by (rule update_after_shrinking_offset)
  then show "start p c' = start p c" by (simp add: start_def)
next
  assume "mark_useless_redundant_clauses_as_garbage srt st = Inr st'"
  then show o: "offset (heap st' q) = offset (heap st q)" by (rule mark_useless_offset)
  then show "start p (heap st' q) = start p (heap st q)" by (simp add: start_def)
qed

theorem clause_allocation_span_witness:
  "2 \<le> sint (size_cl shrunk_clause) \<and> 12 \<le> uint (40 :: 64 word) \<and>
   uint (40 :: 64 word) < 2 ^ 32 \<and>
   start 1000 shrunk_clause = 1000 \<and> uint (bytes 40 shrunk_clause) = 44 \<and>
   start 1000 binary_original = 1012 \<and> uint (bytes 40 binary_original) = 28 \<and>
   start 1000 binary_original + bytes 40 binary_original = 1040 \<and>
   have_pos (shrunk_clause\<lparr>raw_pos := 2, glue := 3\<rparr>) = have_pos shrunk_clause \<and>
   have_analyzed (shrunk_clause\<lparr>raw_pos := 2, glue := 3\<rparr>) = have_analyzed shrunk_clause \<and>
   update_after_shrinking shrunk_clause = Inr (shrunk_clause\<lparr>raw_pos := 2, glue := 3\<rparr>) \<and>
   start 1000 (shrunk_clause\<lparr>raw_pos := 2, glue := 3\<rparr>) = 1000 \<and>
   (\<exists>st'. mark_useless_redundant_clauses_as_garbage sort_by example_state = Inr st' \<and>
      start 1000 (heap st' 1) = 1000 \<and> start 1000 (heap st' 2) = 1012)"
proof -
  have u: "update_after_shrinking shrunk_clause = Inr (shrunk_clause\<lparr>raw_pos := 2, glue := 3\<rparr>)"
    by (simp add: shrunk_clause_def update_after_shrinking_def)
  from mark_useless_fields [of sort_by example_state] obtain st' where
    r: "mark_useless_redundant_clauses_as_garbage sort_by example_state = Inr st'"
    by blast
  note A = clause_allocation_span [of 1000 shrunk_clause 40
      "shrunk_clause\<lparr>raw_pos := 2, glue := 3\<rparr>" sort_by example_state st' 1]
  note B = clause_allocation_span [of 1000 binary_original 40
      "shrunk_clause\<lparr>raw_pos := 2, glue := 3\<rparr>" sort_by example_state st' 2]
  have e: "start 1000 (heap example_state 1) = 1000" "start 1000 (heap example_state 2) = 1012"
    by (simp_all add: start_def offset_cases example_state_def learned_def binary_original_def)
  have 1: "start 1000 (heap st' 1) = 1000"
    using A r e by simp
  have 2: "start 1000 (heap st' 2) = 1012"
    using B r e by simp
  have 3: "start 1000 shrunk_clause = 1000 \<and> uint (bytes 40 shrunk_clause) = 44 \<and>
      start 1000 (shrunk_clause\<lparr>raw_pos := 2, glue := 3\<rparr>) = 1000"
    using A u by (simp add: shrunk_clause_def offset_cases sizeof_int_def sizeof_long_def)
  have 4: "start 1000 binary_original = 1012 \<and> uint (bytes 40 binary_original) = 28 \<and>
      start 1000 binary_original + bytes 40 binary_original = 1040"
    using B by (simp add: binary_original_def offset_cases sizeof_int_def sizeof_long_def)
  have 5: "2 \<le> sint (size_cl shrunk_clause)" "12 \<le> uint (40 :: 64 word)"
    "uint (40 :: 64 word) < 2 ^ 32"
    by (simp_all add: shrunk_clause_def)
  from 1 2 3 4 5 u r show ?thesis by auto
qed

section \<open>Selection of the candidates\<close>

text \<open>
  C3: \<open>mark_useless_redundant_clauses_as_garbage\<close> selects a clause of the registry
  as a candidate if and only if it is redundant, its blocking literal is zero, it
  is neither a reason nor garbage, it has the \<open>analyzed\<close> field and its time stamp
  is at most \<open>lim.analyzed\<close>.  The stack after the first loop holds exactly these
  clauses, and the operation works on exactly them: the clauses that it marks are
  the first half of the sorted sequence of these clauses, \<open>stats.reduced\<close> grows by
  half their number, the kept limits are computed from the other half, and every
  one of them is in one of the halves.  A clause that fails one of the six
  conditions is left as it was, so it is not marked.
\<close>

theorem candidate_selection:
  assumes "sorts_candidates srt st"
  shows "collect_candidates (heap st) (lim_analyzed st) (clauses st) [] = Inr (candidates st) \<and>
    candidates st =
      filter (\<lambda>p. redundant (heap st p) \<and> blocked (heap st p) = 0 \<and>
                   \<not> reason (heap st p) \<and> \<not> garbage (heap st p) \<and> have_analyzed (heap st p) \<and>
                   sint (raw_analyzed (heap st p)) \<le> sint (lim_analyzed st)) (clauses st) \<and>
    (\<forall>p. p \<in> set (candidates st) \<longleftrightarrow>
        p \<in> set (clauses st) \<and> redundant (heap st p) \<and> blocked (heap st p) = 0 \<and>
        \<not> reason (heap st p) \<and> \<not> garbage (heap st p) \<and> have_analyzed (heap st p) \<and>
        sint (raw_analyzed (heap st p)) \<le> sint (lim_analyzed st)) \<and>
    (\<exists>st'. mark_useless_redundant_clauses_as_garbage srt st = Inr st' \<and>
       heap st' = (\<lambda>p. if p \<in> set (marked_half srt st)
                       then (heap st p)\<lparr>garbage := True\<rparr> else heap st p) \<and>
       marked_half srt st =
         take (length (candidates st) div 2)
           (srt (\<lambda>a b. stack_order st a b = Inr True) (candidates st)) \<and>
       kept_half srt st =
         drop (length (candidates st) div 2)
           (srt (\<lambda>a b. stack_order st a b = Inr True) (candidates st)) \<and>
       set (marked_half srt st) \<union> set (kept_half srt st) = set (candidates st) \<and>
       {p. garbage (heap st' p) \<and> \<not> garbage (heap st p)} = set (marked_half srt st) \<and>
       stats_reduced st' = stats_reduced st + of_nat (length (candidates st) div 2) \<and>
       sint (lim_keptsize st') =
         Max (insert 0 ((\<lambda>p. sint (size_cl (heap st p))) ` set (kept_half srt st))) \<and>
       sint (lim_keptglue st') =
         Max (insert 0 ((\<lambda>p. sint (glue (heap st p))) ` set (kept_half srt st))) \<and>
       (\<forall>p. p \<notin> set (candidates st) \<longrightarrow> heap st' p = heap st p))"
proof (intro conjI allI)
  show "collect_candidates (heap st) (lim_analyzed st) (clauses st) [] = Inr (candidates st)"
    by (rule collect_candidates_eq)
  show "candidates st =
      filter (\<lambda>p. redundant (heap st p) \<and> blocked (heap st p) = 0 \<and>
                   \<not> reason (heap st p) \<and> \<not> garbage (heap st p) \<and> have_analyzed (heap st p) \<and>
                   sint (raw_analyzed (heap st p)) \<le> sint (lim_analyzed st)) (clauses st)"
    by (simp add: candidates_def spec_candidate_def [abs_def])
  show "p \<in> set (candidates st) \<longleftrightarrow>
        p \<in> set (clauses st) \<and> redundant (heap st p) \<and> blocked (heap st p) = 0 \<and>
        \<not> reason (heap st p) \<and> \<not> garbage (heap st p) \<and> have_analyzed (heap st p) \<and>
        sint (raw_analyzed (heap st p)) \<le> sint (lim_analyzed st)" for p
    by (simp add: candidates_def spec_candidate_def)
  from mark_useless_fields [of srt st] obtain st' where
    r: "mark_useless_redundant_clauses_as_garbage srt st = Inr st'" and
    h: "heap st' = (\<lambda>p. if p \<in> set (marked_half srt st)
                              then (heap st p)\<lparr>garbage := True\<rparr> else heap st p)" and
    n: "stats_reduced st' = stats_reduced st + of_nat (length (marked_half srt st))" and
    ks: "sint (lim_keptsize st') =
         Max (insert 0 ((\<lambda>p. sint (size_cl (heap st p))) ` set (kept_half srt st)))" and
    kg: "sint (lim_keptglue st') =
         Max (insert 0 ((\<lambda>p. sint (glue (heap st p))) ` set (kept_half srt st)))"
    by blast
  have len: "length (sorted_candidates srt st) = length (candidates st)"
    by (rule sorts_candidates_facts(2) [OF assms])
  have m: "marked_half srt st =
         take (length (candidates st) div 2)
           (srt (\<lambda>a b. stack_order st a b = Inr True) (candidates st))"
    unfolding marked_half_def len by (simp add: sorted_candidates_def)
  have k: "kept_half srt st =
         drop (length (candidates st) div 2)
           (srt (\<lambda>a b. stack_order st a b = Inr True) (candidates st))"
    unfolding kept_half_def len by (simp add: sorted_candidates_def)
  have "set (marked_half srt st @ kept_half srt st) = set (candidates st)"
    using sorts_candidates_facts(1) [OF assms] by (simp add: marked_half_def kept_half_def)
  then have u: "set (marked_half srt st) \<union> set (kept_half srt st) = set (candidates st)"
    by simp
  have g: "{p. garbage (heap st' p) \<and> \<not> garbage (heap st p)} = set (marked_half srt st)"
    by (rule newly_garbage [OF assms h])
  have l: "length (marked_half srt st) = length (candidates st) div 2"
    by (simp add: marked_half_def len)
  have n': "stats_reduced st' = stats_reduced st + of_nat (length (candidates st) div 2)"
    using n by (simp only: l)
  have f: "\<forall>p. p \<notin> set (candidates st) \<longrightarrow> heap st' p = heap st p"
    using sorts_candidates_facts(4) [OF assms] by (auto simp: h)
  show "\<exists>st'. mark_useless_redundant_clauses_as_garbage srt st = Inr st' \<and>
       heap st' = (\<lambda>p. if p \<in> set (marked_half srt st)
                       then (heap st p)\<lparr>garbage := True\<rparr> else heap st p) \<and>
       marked_half srt st =
         take (length (candidates st) div 2)
           (srt (\<lambda>a b. stack_order st a b = Inr True) (candidates st)) \<and>
       kept_half srt st =
         drop (length (candidates st) div 2)
           (srt (\<lambda>a b. stack_order st a b = Inr True) (candidates st)) \<and>
       set (marked_half srt st) \<union> set (kept_half srt st) = set (candidates st) \<and>
       {p. garbage (heap st' p) \<and> \<not> garbage (heap st p)} = set (marked_half srt st) \<and>
       stats_reduced st' = stats_reduced st + of_nat (length (candidates st) div 2) \<and>
       sint (lim_keptsize st') =
         Max (insert 0 ((\<lambda>p. sint (size_cl (heap st p))) ` set (kept_half srt st))) \<and>
       sint (lim_keptglue st') =
         Max (insert 0 ((\<lambda>p. sint (glue (heap st p))) ` set (kept_half srt st))) \<and>
       (\<forall>p. p \<notin> set (candidates st) \<longrightarrow> heap st' p = heap st p)"
    by (rule exI [of _ st'], intro conjI) (fact r h m k u g n' ks kg f)+
qed

theorem candidate_selection_witness:
  "sorts_candidates sort_by example_state \<and>
   collect_candidates (heap example_state) (lim_analyzed example_state)
     (clauses example_state) [] = Inr [0, 1, 3] \<and>
   (\<exists>st'. mark_useless_redundant_clauses_as_garbage sort_by example_state = Inr st' \<and>
      {p. garbage (heap st' p) \<and> \<not> garbage (heap example_state p)} = {1} \<and>
      garbage (heap st' 1) \<and> \<not> garbage (heap st' 0) \<and> \<not> garbage (heap st' 3) \<and>
      stats_reduced st' = 1 \<and> sint (lim_keptsize st') = 4 \<and> sint (lim_keptglue st') = 3 \<and>
      heap st' 2 = heap example_state 2 \<and> heap st' 4 = heap example_state 4)"
proof -
  have s: "sorts_candidates sort_by example_state"
    by (rule sort_by_sorts_candidates)
  note t = candidate_selection [OF s]
  from t have c: "collect_candidates (heap example_state) (lim_analyzed example_state)
     (clauses example_state) [] = Inr [0, 1, 3]"
    by (simp add: candidates_example)
  from t obtain st' where
    r: "mark_useless_redundant_clauses_as_garbage sort_by example_state = Inr st'" and
    h: "heap st' = (\<lambda>p. if p \<in> set (marked_half sort_by example_state)
          then (heap example_state p)\<lparr>garbage := True\<rparr> else heap example_state p)" and
    g: "{p. garbage (heap st' p) \<and> \<not> garbage (heap example_state p)} =
          set (marked_half sort_by example_state)" and
    n: "stats_reduced st' =
          stats_reduced example_state + of_nat (length (candidates example_state) div 2)" and
    ks: "sint (lim_keptsize st') = Max (insert 0 ((\<lambda>p. sint (size_cl (heap example_state p))) `
          set (kept_half sort_by example_state)))" and
    kg: "sint (lim_keptglue st') = Max (insert 0 ((\<lambda>p. sint (glue (heap example_state p))) `
          set (kept_half sort_by example_state)))" and
    f: "\<forall>p. p \<notin> set (candidates example_state) \<longrightarrow> heap st' p = heap example_state p"
    by blast
  have 1: "{p. garbage (heap st' p) \<and> \<not> garbage (heap example_state p)} = {1}"
    using g by (simp add: marked_half_example)
  have 2: "garbage (heap st' 1)" "\<not> garbage (heap st' 0)" "\<not> garbage (heap st' 3)"
    by (simp_all add: h marked_half_example) (simp_all add: example_state_def learned_def)
  have 3: "stats_reduced st' = 1"
    using n by (simp add: candidates_example) (simp add: example_state_def)
  have 4: "sint (lim_keptsize st') = 4"
    using ks by (simp add: kept_half_example) (simp add: example_state_def learned_def)
  have 5: "sint (lim_keptglue st') = 3"
    using kg by (simp add: kept_half_example) (simp add: example_state_def learned_def)
  have 6: "heap st' 2 = heap example_state 2" "heap st' 4 = heap example_state 4"
    using f by (simp_all add: candidates_example)
  show ?thesis
    by (intro conjI, fact s, fact c, rule exI [of _ st'], intro conjI) (fact r 1 2 3 4 5 6)+
qed

section \<open>Half of the candidates are marked\<close>

text \<open>
  C4: with \<open>n\<close> candidates, one call marks the first \<open>n div 2\<close> entries of the sorted
  stack, which are exactly the clauses that become garbage, \<open>n div 2\<close> of them when
  the registry holds each clause once; \<open>stats.reduced\<close> grows by one for each, and
  without candidates no clause changes.
\<close>

theorem marks_half_of_candidates:
  assumes "sorts_candidates srt st"
  shows "\<exists>st'. mark_useless_redundant_clauses_as_garbage srt st = Inr st' \<and>
     {p. garbage (heap st' p) \<and> \<not> garbage (heap st p)} = set (marked_half srt st) \<and>
     marked_half srt st = take (length (candidates st) div 2) (sorted_candidates srt st) \<and>
     length (marked_half srt st) = length (candidates st) div 2 \<and>
     stats_reduced st' = stats_reduced st + of_nat (length (candidates st) div 2) \<and>
     (distinct (clauses st) \<longrightarrow>
        card {p. garbage (heap st' p) \<and> \<not> garbage (heap st p)} = length (candidates st) div 2) \<and>
     (candidates st = [] \<longrightarrow> heap st' = heap st)"
proof -
  from mark_useless_fields [of srt st] obtain st' where
    r: "mark_useless_redundant_clauses_as_garbage srt st = Inr st'" and
    h: "heap st' = (\<lambda>p. if p \<in> set (marked_half srt st)
                              then (heap st p)\<lparr>garbage := True\<rparr> else heap st p)" and
    s: "stats_reduced st' = stats_reduced st + of_nat (length (marked_half srt st))"
    by blast
  have len: "length (sorted_candidates srt st) = length (candidates st)"
    by (rule sorts_candidates_facts(2) [OF assms])
  have m: "marked_half srt st = take (length (candidates st) div 2) (sorted_candidates srt st)"
    by (simp add: marked_half_def len)
  have l: "length (marked_half srt st) = length (candidates st) div 2"
    by (simp add: m len)
  have g: "{p. garbage (heap st' p) \<and> \<not> garbage (heap st p)} = set (marked_half srt st)"
    by (rule newly_garbage [OF assms h])
  have c: "card {p. garbage (heap st' p) \<and> \<not> garbage (heap st p)} = length (candidates st) div 2"
    if "distinct (clauses st)"
  proof -
    have "distinct (sorted_candidates srt st)"
      using that by (intro sorts_candidates_facts(3) [OF assms]) (simp add: candidates_def)
    then have "distinct (marked_half srt st)"
      unfolding m by (rule distinct_take)
    then show ?thesis
      unfolding g using l by (simp add: distinct_card)
  qed
  have e: "candidates st = [] \<longrightarrow> heap st' = heap st"
    using l by (auto simp: h)
  show ?thesis
    using r g m l c s e unfolding l by blast
qed

theorem marks_half_of_candidates_witness:
  "sorts_candidates sort_by example_state \<and> distinct (clauses example_state) \<and>
   length (candidates example_state) = 3 \<and>
   (\<exists>st'. mark_useless_redundant_clauses_as_garbage sort_by example_state = Inr st' \<and>
      {p. garbage (heap st' p) \<and> \<not> garbage (heap example_state p)} = {1} \<and>
      card {p. garbage (heap st' p) \<and> \<not> garbage (heap example_state p)} = 1 \<and>
      stats_reduced st' = 1)"
proof -
  have s: "sorts_candidates sort_by example_state"
    by (rule sort_by_sorts_candidates)
  have d: "distinct (clauses example_state)"
    by (simp add: example_state_def)
  from marks_half_of_candidates [OF s] obtain st' where
    r: "mark_useless_redundant_clauses_as_garbage sort_by example_state = Inr st'" and
    g: "{p. garbage (heap st' p) \<and> \<not> garbage (heap example_state p)} =
          set (marked_half sort_by example_state)" and
    n: "stats_reduced st' =
          stats_reduced example_state + of_nat (length (candidates example_state) div 2)" and
    c: "distinct (clauses example_state) \<longrightarrow>
          card {p. garbage (heap st' p) \<and> \<not> garbage (heap example_state p)} =
            length (candidates example_state) div 2"
    by blast
  have 1: "{p. garbage (heap st' p) \<and> \<not> garbage (heap example_state p)} = {1}"
    using g by (simp add: marked_half_example)
  have 2: "card {p. garbage (heap st' p) \<and> \<not> garbage (heap example_state p)} = 1"
    using c d by (simp add: candidates_example)
  have 3: "stats_reduced st' = 1"
    using n by (simp add: candidates_example) (simp add: example_state_def)
  have 4: "length (candidates example_state) = 3"
    by (simp add: candidates_example)
  from s d 4 r 1 2 3 show ?thesis by blast
qed

section \<open>Sorting by glue\<close>

text \<open>
  C5: when \<open>opts.reduceglue\<close> is set, a clause \<open>m\<close> that the operation marks and a
  candidate \<open>u\<close> that it leaves unmarked satisfy \<open>glue u \<le> glue m\<close>.
\<close>

theorem glue_order_respected:
  assumes "sorts_candidates srt st"
    and "opts_reduceglue st"
    and "mark_useless_redundant_clauses_as_garbage srt st = Inr st'"
    and "garbage (heap st' m)" "\<not> garbage (heap st m)"
    and "u \<in> set (candidates st)" "\<not> garbage (heap st' u)"
  shows "sint (glue (heap st u)) \<le> sint (glue (heap st m))"
proof -
  from mark_useless_fields [of srt st] assms(3) have
    h: "heap st' = (\<lambda>p. if p \<in> set (marked_half srt st)
                              then (heap st p)\<lparr>garbage := True\<rparr> else heap st p)"
    by auto
  have m: "m \<in> set (marked_half srt st)"
    using newly_garbage [OF assms(1) h] assms(4,5) by blast
  have "u \<notin> set (marked_half srt st)"
    using assms(7) by (auto simp: h)
  moreover have "u \<in> set (marked_half srt st @ kept_half srt st)"
    using assms(6) sorts_candidates_facts(1) [OF assms(1)]
    by (simp add: marked_half_def kept_half_def)
  ultimately have u: "u \<in> set (kept_half srt st)" by simp
  have ha: "have_analyzed (heap st m)" "have_analyzed (heap st u)"
    using m sorts_candidates_facts(4) [OF assms(1)] assms(6)
    by (auto intro: candidates_have_analyzed)
  show ?thesis
    using marked_before_kept [OF assms(1) m u] assms(2)
    by (simp add: stack_order_Inr [OF ha(2) ha(1)] order_key_def)
qed

theorem glue_order_respected_witness:
  "sorts_candidates sort_by example_state \<and> opts_reduceglue example_state \<and>
   (\<exists>st'. mark_useless_redundant_clauses_as_garbage sort_by example_state = Inr st' \<and>
      garbage (heap st' 1) \<and> \<not> garbage (heap example_state 1) \<and>
      3 \<in> set (candidates example_state) \<and> \<not> garbage (heap st' 3)) \<and>
   sint (glue (heap example_state 3)) \<le> sint (glue (heap example_state 1))"
proof -
  have s: "sorts_candidates sort_by example_state"
    by (rule sort_by_sorts_candidates)
  have o: "opts_reduceglue example_state"
    by (simp add: example_state_def)
  from mark_useless_fields [of sort_by example_state] obtain st' where
    r: "mark_useless_redundant_clauses_as_garbage sort_by example_state = Inr st'" and
    h: "heap st' = (\<lambda>p. if p \<in> set (marked_half sort_by example_state)
          then (heap example_state p)\<lparr>garbage := True\<rparr> else heap example_state p)"
    by blast
  have m: "garbage (heap st' 1)" "\<not> garbage (heap example_state 1)"
    by (simp_all add: h marked_half_example) (simp add: example_state_def learned_def)
  have u: "3 \<in> set (candidates example_state)" "\<not> garbage (heap st' 3)"
    by (simp_all add: h marked_half_example candidates_example)
       (simp add: example_state_def learned_def)
  have "sint (glue (heap example_state 3)) \<le> sint (glue (heap example_state 1))"
    by (rule glue_order_respected [OF s o r m u])
  with s o r m u show ?thesis by blast
qed

section \<open>The kept profile\<close>

lemma Max_insert_0:
  fixes f :: "addr \<Rightarrow> int"
  assumes "xs \<noteq> []" "\<forall>p \<in> set xs. 0 \<le> f p"
  shows "Max (insert 0 (f ` set xs)) = Max (f ` set xs)"
proof -
  from assms(1) obtain x where x: "x \<in> set xs" by (cases xs) auto
  then have "0 \<le> f x" "f x \<le> Max (f ` set xs)" using assms(2) by simp_all
  then have "0 \<le> Max (f ` set xs)" by linarith
  moreover have "f ` set xs \<noteq> {}" using x by auto
  ultimately show ?thesis by (simp add: max_def)
qed

text \<open>
  C7: after the operation \<open>lim.keptsize\<close> and \<open>lim.keptglue\<close> are the maxima of 0 and
  the sizes, respectively the glues, of the kept half of the sorted stack: both
  are 0 when the kept half is empty, and they are the maximal size and the maximal
  glue of the kept clauses, whose sizes are at least 2 and whose glues are not
  negative.
\<close>

theorem kept_profile_published:
  "\<exists>st'. mark_useless_redundant_clauses_as_garbage srt st = Inr st' \<and>
     sint (lim_keptsize st') =
       Max (insert 0 ((\<lambda>p. sint (size_cl (heap st p))) ` set (kept_half srt st))) \<and>
     sint (lim_keptglue st') =
       Max (insert 0 ((\<lambda>p. sint (glue (heap st p))) ` set (kept_half srt st))) \<and>
     (kept_half srt st = [] \<longrightarrow> lim_keptsize st' = 0 \<and> lim_keptglue st' = 0) \<and>
     (kept_half srt st \<noteq> [] \<and> (\<forall>p \<in> set (kept_half srt st). 2 \<le> sint (size_cl (heap st p))) \<longrightarrow>
        sint (lim_keptsize st') = Max ((\<lambda>p. sint (size_cl (heap st p))) ` set (kept_half srt st))) \<and>
     (kept_half srt st \<noteq> [] \<and> (\<forall>p \<in> set (kept_half srt st). 0 \<le> sint (glue (heap st p))) \<longrightarrow>
        sint (lim_keptglue st') = Max ((\<lambda>p. sint (glue (heap st p))) ` set (kept_half srt st)))"
proof -
  from mark_useless_fields [of srt st] obtain st' where
    r: "mark_useless_redundant_clauses_as_garbage srt st = Inr st'" and
    s: "sint (lim_keptsize st') =
       Max (insert 0 ((\<lambda>p. sint (size_cl (heap st p))) ` set (kept_half srt st)))" and
    g: "sint (lim_keptglue st') =
       Max (insert 0 ((\<lambda>p. sint (glue (heap st p))) ` set (kept_half srt st)))"
    by blast
  have e: "kept_half srt st = [] \<longrightarrow> lim_keptsize st' = 0 \<and> lim_keptglue st' = 0"
    using s g by (auto simp: signed_eq_0_iff)
  have s': "kept_half srt st \<noteq> [] \<and> (\<forall>p \<in> set (kept_half srt st). 2 \<le> sint (size_cl (heap st p))) \<longrightarrow>
        sint (lim_keptsize st') = Max ((\<lambda>p. sint (size_cl (heap st p))) ` set (kept_half srt st))"
    unfolding s by (intro impI Max_insert_0) force+
  have g': "kept_half srt st \<noteq> [] \<and> (\<forall>p \<in> set (kept_half srt st). 0 \<le> sint (glue (heap st p))) \<longrightarrow>
        sint (lim_keptglue st') = Max ((\<lambda>p. sint (glue (heap st p))) ` set (kept_half srt st))"
    unfolding g by (intro impI Max_insert_0) simp_all
  from r s g e s' g' show ?thesis by blast
qed

theorem kept_profile_published_witness:
  "kept_half sort_by example_state = [0, 3] \<and> kept_half sort_by tie_state \<noteq> [] \<and>
   2 \<le> sint (size_cl (heap example_state 0)) \<and> 0 \<le> sint (glue (heap example_state 0)) \<and>
   2 \<le> sint (size_cl (heap example_state 3)) \<and> 0 \<le> sint (glue (heap example_state 3)) \<and>
   (\<exists>st'. mark_useless_redundant_clauses_as_garbage sort_by example_state = Inr st' \<and>
      sint (lim_keptsize st') = 4 \<and> sint (lim_keptglue st') = 3) \<and>
   kept_half sort_by (example_state\<lparr>clauses := []\<rparr>) = [] \<and>
   (\<exists>st'. mark_useless_redundant_clauses_as_garbage sort_by (example_state\<lparr>clauses := []\<rparr>) = Inr st' \<and>
      lim_keptsize st' = 0 \<and> lim_keptglue st' = 0)"
proof -
  have k: "kept_half sort_by example_state = [0, 3]"
    by (rule kept_half_example)
  have t: "kept_half sort_by tie_state \<noteq> []"
    by (simp add: kept_half_def sorted_candidates_def candidates_def tie_state_def example_state_def
        spec_candidate_def stack_order_def less_usefull_def analyzed_earlier_def analyzed_def
        learned_def)
  have w: "\<forall>p \<in> set (kept_half sort_by example_state).
      2 \<le> sint (size_cl (heap example_state p)) \<and> 0 \<le> sint (glue (heap example_state p))"
    by (simp add: k) (simp add: example_state_def learned_def)
  from kept_profile_published [of sort_by example_state] obtain st' where
    r: "mark_useless_redundant_clauses_as_garbage sort_by example_state = Inr st'" and
    s: "kept_half sort_by example_state \<noteq> [] \<and>
        (\<forall>p \<in> set (kept_half sort_by example_state). 2 \<le> sint (size_cl (heap example_state p))) \<longrightarrow>
        sint (lim_keptsize st') =
          Max ((\<lambda>p. sint (size_cl (heap example_state p))) ` set (kept_half sort_by example_state))" and
    g: "kept_half sort_by example_state \<noteq> [] \<and>
        (\<forall>p \<in> set (kept_half sort_by example_state). 0 \<le> sint (glue (heap example_state p))) \<longrightarrow>
        sint (lim_keptglue st') =
          Max ((\<lambda>p. sint (glue (heap example_state p))) ` set (kept_half sort_by example_state))"
    by blast
  have 1: "sint (lim_keptsize st') = 4"
    using s w by (simp add: k) (simp add: example_state_def learned_def)
  have 2: "sint (lim_keptglue st') = 3"
    using g w by (simp add: k) (simp add: example_state_def learned_def)
  have e: "kept_half sort_by (example_state\<lparr>clauses := []\<rparr>) = []"
    by (simp add: kept_half_def sorted_candidates_def candidates_def)
  from kept_profile_published [of sort_by "example_state\<lparr>clauses := []\<rparr>"] e obtain st'' where
    "mark_useless_redundant_clauses_as_garbage sort_by (example_state\<lparr>clauses := []\<rparr>) = Inr st''"
    "lim_keptsize st'' = 0" "lim_keptglue st'' = 0"
    by blast
  moreover have "2 \<le> sint (size_cl (heap example_state 0))" "0 \<le> sint (glue (heap example_state 0))"
    "2 \<le> sint (size_cl (heap example_state 3))" "0 \<le> sint (glue (heap example_state 3))"
    using w by (simp_all add: k)
  ultimately show ?thesis using k t r 1 2 e by blast
qed

section \<open>The presence bits\<close>

text \<open>
  C9: \<open>analyzed ()\<close> and \<open>pos ()\<close> return the stored field when the presence bit is
  set and fail the assertion when it is not.  The reduction policy never fails an
  assertion: every clause it puts on the stack has the \<open>analyzed\<close> field, so the
  guarded read in the first loop and every comparison of the sort succeed.
  \<open>update_after_shrinking\<close> does not look at \<open>_pos\<close> when the field is absent.
\<close>

theorem presence_bits_guard_accessors:
  "(have_analyzed c \<longrightarrow> analyzed c = Inr (raw_analyzed c)) \<and>
   (\<not> have_analyzed c \<longrightarrow> analyzed c = Inl AssertionFailed) \<and>
   (have_pos c \<longrightarrow> pos c = Inr (raw_pos c)) \<and>
   (\<not> have_pos c \<longrightarrow> pos c = Inl AssertionFailed) \<and>
   (\<exists>stack. collect_candidates (heap st) (lim_analyzed st) (clauses st) [] = Inr stack \<and>
      (\<forall>p \<in> set stack. have_analyzed (heap st p)) \<and>
      (\<forall>a \<in> set stack. \<forall>b \<in> set stack. \<exists>r. stack_order st a b = Inr r)) \<and>
   (\<exists>st'. mark_useless_redundant_clauses_as_garbage srt st = Inr st') \<and>
   (\<not> have_pos c \<longrightarrow>
      update_after_shrinking (c\<lparr>raw_pos := x\<rparr>) =
        (case update_after_shrinking c of Inl e \<Rightarrow> Inl e | Inr c' \<Rightarrow> Inr (c'\<lparr>raw_pos := x\<rparr>)))"
proof (intro conjI impI)
  show "\<exists>stack. collect_candidates (heap st) (lim_analyzed st) (clauses st) [] = Inr stack \<and>
      (\<forall>p \<in> set stack. have_analyzed (heap st p)) \<and>
      (\<forall>a \<in> set stack. \<forall>b \<in> set stack. \<exists>r. stack_order st a b = Inr r)"
    by (rule exI [of _ "candidates st"])
       (simp add: collect_candidates_eq candidates_have_analyzed stack_order_Inr)
  show "\<exists>st'. mark_useless_redundant_clauses_as_garbage srt st = Inr st'"
    using mark_useless_fields [of srt st] by blast
  assume "\<not> have_pos c"
  then show "update_after_shrinking (c\<lparr>raw_pos := x\<rparr>) =
        (case update_after_shrinking c of Inl e \<Rightarrow> Inl e | Inr c' \<Rightarrow> Inr (c'\<lparr>raw_pos := x\<rparr>))"
    by (simp add: update_after_shrinking_def Let_def)
qed (simp_all add: analyzed_def pos_def)

theorem presence_bits_guard_accessors_witness:
  "have_analyzed shrunk_clause \<and> analyzed shrunk_clause = Inr 0 \<and>
   have_pos shrunk_clause \<and> pos shrunk_clause = Inr 5 \<and>
   \<not> have_analyzed binary_original \<and> analyzed binary_original = Inl AssertionFailed \<and>
   \<not> have_pos binary_original \<and> pos binary_original = Inl AssertionFailed \<and>
   (\<exists>st'. mark_useless_redundant_clauses_as_garbage sort_by example_state = Inr st') \<and>
   update_after_shrinking (binary_original\<lparr>raw_pos := 7\<rparr>) = Inr (binary_original\<lparr>raw_pos := 7\<rparr>)"
  using presence_bits_guard_accessors [of shrunk_clause example_state sort_by 7]
    presence_bits_guard_accessors [of binary_original example_state sort_by 7]
  by (simp add: shrunk_clause_def binary_original_def update_after_shrinking_def)

section \<open>The order of the sort stage\<close>

lemma candidates_tie: "candidates tie_state = [0, 1]"
  by (simp add: candidates_def tie_state_def example_state_def spec_candidate_def learned_def)

lemma stack_order_tie: "stack_order tie_state a b = Inr False"
  by (simp add: stack_order_def less_usefull_def analyzed_earlier_def analyzed_def
      tie_state_def example_state_def learned_def)

text \<open>
  C6, as the specification states it: of two distinct candidates exactly one is
  ordered before the other, with pointer identity as the last resort, so that
  the sorted sequence and the marked set are determined.  Neither comparison
  object looks at the pointers: the two clauses of \<open>tie_state\<close>, at the addresses 0
  and 1, have the same glue and the same time stamp, and neither is ordered before
  the other.  Both orders of the two are sorted, and two sorting functions mark
  different clauses.
\<close>

theorem stack_order_total_counterexample:
  "(0 :: addr) \<noteq> 1 \<and> candidates tie_state = [0, 1] \<and>
   stack_order tie_state 0 1 = Inr False \<and> stack_order tie_state 1 0 = Inr False \<and>
   less_usefull (heap tie_state 0) (heap tie_state 1) = Inr False \<and>
   less_usefull (heap tie_state 1) (heap tie_state 0) = Inr False \<and>
   analyzed_earlier (heap tie_state 0) (heap tie_state 1) = Inr False \<and>
   analyzed_earlier (heap tie_state 1) (heap tie_state 0) = Inr False \<and>
   sorts_candidates sort_by tie_state \<and> sorts_candidates sort_by_rev tie_state \<and>
   sorted_candidates sort_by tie_state = [1, 0] \<and>
   sorted_candidates sort_by_rev tie_state = [0, 1] \<and>
   marked_half sort_by tie_state = [1] \<and> marked_half sort_by_rev tie_state = [0]"
proof -
  have 1: "sorted_candidates sort_by tie_state = [1, 0]"
    by (simp add: sorted_candidates_def candidates_tie stack_order_tie)
  have 2: "sorted_candidates sort_by_rev tie_state = [0, 1]"
    by (simp add: sorted_candidates_def candidates_tie stack_order_tie sort_by_rev_def)
  have 3: "less_usefull (heap tie_state a) (heap tie_state b) = Inr False"
    "analyzed_earlier (heap tie_state a) (heap tie_state b) = Inr False" for a b
    by (simp_all add: less_usefull_def analyzed_earlier_def analyzed_def
      tie_state_def example_state_def learned_def)
  show ?thesis
    by (simp add: candidates_tie stack_order_tie 1 2 3 marked_half_def
        sort_by_sorts_candidates sort_by_rev_sorts_candidates)
qed

lemma sorted_keys:
  assumes "sorts_candidates srt st"
  shows "sorted (map (order_key st) (sorted_candidates srt st))"
proof -
  have h: "have_analyzed (heap st p)" if "p \<in> set (sorted_candidates srt st)" for p
    using that sorts_candidates_facts(1) [OF assms] by (simp add: candidates_have_analyzed)
  have "sorted_wrt (\<lambda>a b. \<not> stack_order st b a = Inr True) (sorted_candidates srt st)"
    using assms by (simp add: sorts_candidates_def std_sort_post_def)
  then have "sorted_wrt (\<lambda>a b. order_key st a \<le> order_key st b) (sorted_candidates srt st)"
    by (rule sorted_wrt_mono_rel [rotated]) (simp add: stack_order_Inr h not_less)
  then show ?thesis by (simp add: sorted_map)
qed

lemma sorted_keys_unique:
  assumes "sorts_candidates srt1 st" "sorts_candidates srt2 st"
  shows "map (order_key st) (sorted_candidates srt1 st) = map (order_key st) (sorted_candidates srt2 st)"
proof -
  have m: "mset (sorted_candidates srt1 st) = mset (sorted_candidates srt2 st)"
    using assms by (simp add: sorts_candidates_def std_sort_post_def)
  have "mset (map (order_key st) (sorted_candidates srt1 st)) =
        mset (map (order_key st) (sorted_candidates srt2 st))"
    by (simp add: m)
  then have "sort (map (order_key st) (sorted_candidates srt2 st)) =
      map (order_key st) (sorted_candidates srt1 st)"
    using sorted_keys [OF assms(1)] by (rule properties_for_sort)
  moreover have "sort (map (order_key st) (sorted_candidates srt2 st)) =
      map (order_key st) (sorted_candidates srt2 st)"
    using sorted_keys [OF assms(2)] by (rule sorted_sort_id)
  ultimately show ?thesis by simp
qed



text \<open>
  C6, amended: the comparison of the sort stage (\<open>less_usefull\<close> when
  \<open>opts.reduceglue\<close> is set, \<open>analyzed_earlier\<close> otherwise) is a deterministic strict
  weak order on clauses that have the \<open>analyzed\<close> field: it is the strict
  lexicographic order of the key (negated glue, time stamp), respectively of the
  time stamp alone; it is irreflexive, asymmetric and transitive, and so is being
  unordered.  Of two candidates exactly one is ordered before the other if and
  only if their keys differ; candidates with equal keys are unordered, and there
  is no tie-break on the pointers.  The sorted sequence is determined up to the
  order of candidates with equal keys: its sequence of keys is the same for every
  sorting function.
\<close>

theorem stack_order_strict_weak:
  assumes "have_analyzed (heap st a)" "have_analyzed (heap st b)" "have_analyzed (heap st c)"
  shows "stack_order st a b =
       (if opts_reduceglue st then less_usefull (heap st a) (heap st b)
        else analyzed_earlier (heap st a) (heap st b)) \<and>
     stack_order st a b = Inr (order_key st a < order_key st b) \<and>
     stack_order st a a = Inr False \<and>
     (stack_order st a b = Inr True \<longrightarrow> stack_order st b a = Inr False) \<and>
     (stack_order st a b = Inr True \<and> stack_order st b c = Inr True \<longrightarrow>
        stack_order st a c = Inr True) \<and>
     (stack_order st a b = Inr False \<and> stack_order st b c = Inr False \<longrightarrow>
        stack_order st a c = Inr False) \<and>
     (order_key st a \<noteq> order_key st b \<longleftrightarrow>
        (stack_order st a b = Inr True) \<noteq> (stack_order st b a = Inr True)) \<and>
     (order_key st a = order_key st b \<longleftrightarrow>
        stack_order st a b = Inr False \<and> stack_order st b a = Inr False) \<and>
     (sorts_candidates srt st \<and> sorts_candidates srt' st \<longrightarrow>
        map (order_key st) (sorted_candidates srt st) =
        map (order_key st) (sorted_candidates srt' st))"
proof -
  define ka kb kc where "ka = order_key st a" and "kb = order_key st b" and "kc = order_key st c"
  have o: "stack_order st a b = Inr (ka < kb)" "stack_order st b a = Inr (kb < ka)"
    "stack_order st b c = Inr (kb < kc)" "stack_order st a c = Inr (ka < kc)"
    "stack_order st a a = Inr (ka < ka)"
    unfolding ka_def kb_def kc_def by (rule stack_order_Inr [OF assms(1,2)],
      rule stack_order_Inr [OF assms(2,1)], rule stack_order_Inr [OF assms(2,3)],
      rule stack_order_Inr [OF assms(1,3)], rule stack_order_Inr [OF assms(1,1)])
  have 1: "stack_order st a b =
       (if opts_reduceglue st then less_usefull (heap st a) (heap st b)
        else analyzed_earlier (heap st a) (heap st b))"
    by (simp add: stack_order_def)
  have 2: "stack_order st a b = Inr (order_key st a < order_key st b)"
    by (rule stack_order_Inr [OF assms(1,2)])
  have 3: "stack_order st a a = Inr False"
    by (simp add: o)
  have 4: "stack_order st a b = Inr True \<longrightarrow> stack_order st b a = Inr False"
    unfolding o by (simp add: less_imp_not_less)
  have 5: "stack_order st a b = Inr True \<and> stack_order st b c = Inr True \<longrightarrow>
        stack_order st a c = Inr True"
    unfolding o using less_trans [of ka kb kc] by simp
  have 6: "stack_order st a b = Inr False \<and> stack_order st b c = Inr False \<longrightarrow>
        stack_order st a c = Inr False"
    unfolding o using order_trans [of kc kb ka] by (simp add: not_less)
  have 7: "order_key st a \<noteq> order_key st b \<longleftrightarrow>
        (stack_order st a b = Inr True) \<noteq> (stack_order st b a = Inr True)"
    unfolding o ka_def [symmetric] kb_def [symmetric]
    using less_linear [of ka kb] less_imp_not_less [of ka kb] by auto
  have 8: "order_key st a = order_key st b \<longleftrightarrow>
        stack_order st a b = Inr False \<and> stack_order st b a = Inr False"
    unfolding o ka_def [symmetric] kb_def [symmetric]
    using less_linear [of ka kb] by auto
  have 9: "sorts_candidates srt st \<and> sorts_candidates srt' st \<longrightarrow>
        map (order_key st) (sorted_candidates srt st) =
        map (order_key st) (sorted_candidates srt' st)"
    by (simp add: sorted_keys_unique)
  from 1 2 3 4 5 6 7 8 9 show ?thesis by (intro conjI)
qed


theorem stack_order_strict_weak_witness:
  "have_analyzed (heap example_state 0) \<and> have_analyzed (heap example_state 1) \<and>
   have_analyzed (heap example_state 3) \<and>
   stack_order example_state 1 0 = Inr True \<and> stack_order example_state 0 3 = Inr True \<and>
   stack_order example_state 1 3 = Inr True \<and> stack_order example_state 0 1 = Inr False \<and>
   stack_order tie_state 0 1 = Inr False \<and> stack_order tie_state 1 0 = Inr False \<and>
   order_key tie_state 0 = order_key tie_state 1 \<and>
   sorts_candidates sort_by tie_state \<and> sorts_candidates sort_by_rev tie_state \<and>
   map (order_key tie_state) (sorted_candidates sort_by tie_state) =
   map (order_key tie_state) (sorted_candidates sort_by_rev tie_state)"
proof -
  have h: "have_analyzed (heap example_state 0)" "have_analyzed (heap example_state 1)"
    "have_analyzed (heap example_state 3)"
    by (simp_all add: example_state_def learned_def)
  have t: "have_analyzed (heap tie_state p)" for p
    by (simp add: tie_state_def example_state_def learned_def)
  have k: "order_key example_state 0 = (- 3, 1)" "order_key example_state 1 = (- 5, 2)"
    "order_key example_state 3 = (- 2, 3)" "order_key example_state (Suc 0) = (- 5, 2)"
    by (simp_all add: order_key_def example_state_def learned_def)
  have kt: "order_key tie_state 0 = order_key tie_state 1"
    by (simp add: order_key_def tie_state_def example_state_def learned_def)
  have s: "sorts_candidates sort_by tie_state" "sorts_candidates sort_by_rev tie_state"
    by (rule sort_by_sorts_candidates, rule sort_by_rev_sorts_candidates)
  note A = stack_order_strict_weak [where st = example_state and a = 1 and b = 0 and c = 3
      and srt = sort_by and srt' = sort_by, OF h(2) h(1) h(3)]
  note B = stack_order_strict_weak [where st = example_state and a = 0 and b = 3 and c = 1
      and srt = sort_by and srt' = sort_by, OF h(1) h(3) h(2)]
  note C = stack_order_strict_weak [where st = tie_state and a = 0 and b = 1 and c = 0
      and srt = sort_by and srt' = sort_by_rev, OF t t t]
  have 1: "stack_order example_state 1 0 = Inr True"
    using A [THEN conjunct2, THEN conjunct1] by (simp add: k)
  have 2: "stack_order example_state 0 3 = Inr True"
    using B [THEN conjunct2, THEN conjunct1] by (simp add: k)
  have 3: "stack_order example_state 1 3 = Inr True"
    using A [THEN conjunct2, THEN conjunct2, THEN conjunct2, THEN conjunct2, THEN conjunct1] 1 2
    by simp
  have 4: "stack_order example_state 0 1 = Inr False"
    using A [THEN conjunct2, THEN conjunct2, THEN conjunct2, THEN conjunct1] 1 by simp
  have 5: "stack_order tie_state 0 1 = Inr False \<and> stack_order tie_state 1 0 = Inr False"
    using C [THEN conjunct2, THEN conjunct2, THEN conjunct2, THEN conjunct2, THEN conjunct2,
        THEN conjunct2, THEN conjunct2, THEN conjunct1] kt
    by simp
  have 6: "map (order_key tie_state) (sorted_candidates sort_by tie_state) =
      map (order_key tie_state) (sorted_candidates sort_by_rev tie_state)"
    using C [THEN conjunct2, THEN conjunct2, THEN conjunct2, THEN conjunct2, THEN conjunct2,
        THEN conjunct2, THEN conjunct2, THEN conjunct2] s
    by simp
  from h 1 2 3 4 5 kt s 6 show ?thesis by (intro conjI) simp_all
qed

section \<open>The scheduler\<close>

lemma protect_reasons_loop_inputs:
  "scheduler_inputs (protect_reasons_loop is st) = scheduler_inputs st"
proof (induction "is" arbitrary: st)
  case Nil
  show ?case by simp
next
  case (Cons i "is")
  show ?case
    by (simp add: Let_def Cons.IH var_def split: option.split)
       (simp add: scheduler_inputs_def)
qed

lemma unprotect_reasons_loop_inputs:
  "unprotect_reasons_loop is st = Inr st' \<Longrightarrow> scheduler_inputs st' = scheduler_inputs st"
proof (induction "is" arbitrary: st)
  case Nil
  then show ?case by simp
next
  case (Cons i "is")
  show ?case
  proof (cases "level (var st i) = 0")
    case True
    with Cons show ?thesis by (simp add: Let_def)
  next
    case False
    show ?thesis
    proof (cases "var_reason (var st i)")
      case None
      with False Cons show ?thesis by (simp add: Let_def)
    next
      case (Some r)
      with False Cons.prems have r: "reason (heap st r)"
        and u: "unprotect_reasons_loop is
                  (st\<lparr>heap := (heap st)(r := (heap st r)\<lparr>reason := False\<rparr>)\<rparr>) = Inr st'"
        by (simp_all add: Let_def split: if_splits)
      from Cons.IH [OF u] show ?thesis by (simp add: scheduler_inputs_def)
    qed
  qed
qed

lemma reduce_limits_fields:
  "inc_reduce (reduce_limits s) = inc_reduce s + inc_redinc s"
  "inc_redinc (reduce_limits s) = (if 1 < sint (inc_redinc s) then inc_redinc s - 1 else inc_redinc s)"
  "lim_reduce (reduce_limits s) = stats_conflicts s + (inc_reduce s + inc_redinc s)"
  "lim_analyzed (reduce_limits s) = stats_analyzed s"
  "lim_conflicts_at_last_reduce (reduce_limits s) = stats_conflicts s"
  "stats_conflicts (reduce_limits s) = stats_conflicts s"
  "stats_analyzed (reduce_limits s) = stats_analyzed s"
  by (simp_all add: reduce_limits_def Let_def)

lemma reduce_epoch_inputs:
  assumes "reduce_epoch srt mark_satisfied collector st = Inr s"
    and sat: "\<forall>x y. mark_satisfied x = Inr y \<longrightarrow> scheduler_inputs y = scheduler_inputs x"
    and gc: "\<forall>x y. collector x = Inr y \<longrightarrow> scheduler_inputs y = scheduler_inputs x"
  shows "scheduler_inputs s = scheduler_inputs st"
proof -
  define st1 where "st1 = st\<lparr>stats_reductions := stats_reductions st + 1\<rparr>"
  define st2 where "st2 = protect_reasons st1"
  from assms(1) obtain st3 st4 st5 where
    3: "mark_satisfied st2 = Inr st3" and
    4: "mark_useless_redundant_clauses_as_garbage srt st3 = Inr st4" and
    5: "collector st4 = Inr st5" and
    6: "unprotect_reasons st5 = Inr s"
    by (auto simp: reduce_epoch_def Let_def st1_def st2_def split: sum.splits)
  have "scheduler_inputs st1 = scheduler_inputs st"
    by (simp add: st1_def scheduler_inputs_def)
  moreover have "scheduler_inputs st2 = scheduler_inputs st1"
    by (simp add: st2_def protect_reasons_def protect_reasons_loop_inputs)
  moreover have "scheduler_inputs st3 = scheduler_inputs st2"
    using sat 3 by blast
  moreover have "scheduler_inputs st4 = scheduler_inputs st3"
    using mark_useless_fields [of srt st3] 4 by auto
  moreover have "scheduler_inputs st5 = scheduler_inputs st4"
    using gc 5 by blast
  moreover have "scheduler_inputs s = scheduler_inputs st5"
    using 6 by (simp add: unprotect_reasons_def unprotect_reasons_loop_inputs)
  ultimately show ?thesis by simp
qed

text \<open>
  C2, as the specification states it: \<open>lim.reduce\<close> becomes the conflict count plus
  the value that \<open>inc.reduce\<close> had before the update.  The code adds \<open>inc.redinc\<close> to
  \<open>inc.reduce\<close> first and computes the limit from the sum: with 1000 conflicts, an
  increment of 300 and a delta of 10 the new limit is 1310, not 1300.
\<close>

theorem reduce_limit_counterexample:
  "map_sum id lim_reduce (reduce sort_by Inr Inr example_state) = Inr 1310 \<and>
   stats_conflicts example_state + inc_reduce example_state = 1300"
  by (simp add: reduce_def reduce_epoch_def reduce_limits_def protect_reasons_def
      unprotect_reasons_def mark_useless_redundant_clauses_as_garbage_def var_def
      example_state_def Let_def learned_def binary_original_def analyzed_def sort_stack_def
      stack_order_def less_usefull_def analyzed_earlier_def mark_garbage_def)

text \<open>
  C2, amended: at the end of a \<open>reduce\<close> epoch \<open>inc.reduce\<close> is grown by \<open>inc.redinc\<close>;
  then \<open>inc.redinc\<close> is decremented by 1 if it is larger than 1; then \<open>lim.reduce\<close>
  is set to the current conflict count plus the grown \<open>inc.reduce\<close>, that is, plus
  the sum of the increment and the delta from before the update; and
  \<open>lim.analyzed\<close> is set to the current \<open>stats.analyzed\<close>.  The values from before
  the update are those at the start of the call when the two missing functions
  leave them alone, as the functions of the epoch that are embedded here do.
\<close>

theorem reduce_scheduler_update:
  assumes "reduce srt mark_satisfied collector st = Inr st'"
  shows "\<exists>s. reduce_epoch srt mark_satisfied collector st = Inr s \<and>
      inc_reduce st' = inc_reduce s + inc_redinc s \<and>
      inc_redinc st' = (if 1 < sint (inc_redinc s) then inc_redinc s - 1 else inc_redinc s) \<and>
      lim_reduce st' = stats_conflicts s + (inc_reduce s + inc_redinc s) \<and>
      lim_reduce st' = stats_conflicts st' + inc_reduce st' \<and>
      lim_analyzed st' = stats_analyzed s \<and>
      stats_conflicts st' = stats_conflicts s \<and> stats_analyzed st' = stats_analyzed s \<and>
      ((\<forall>x y. mark_satisfied x = Inr y \<longrightarrow> scheduler_inputs y = scheduler_inputs x) \<and>
       (\<forall>x y. collector x = Inr y \<longrightarrow> scheduler_inputs y = scheduler_inputs x) \<longrightarrow>
       scheduler_inputs s = scheduler_inputs st)"
proof -
  from assms obtain s where
    e: "reduce_epoch srt mark_satisfied collector st = Inr s" and
    l: "st' = reduce_limits s"
    by (auto simp: reduce_def split: sum.splits)
  show ?thesis
  proof (rule exI [of _ s], intro conjI impI)
    show "reduce_epoch srt mark_satisfied collector st = Inr s" by (rule e)
    show "scheduler_inputs s = scheduler_inputs st"
      if "(\<forall>x y. mark_satisfied x = Inr y \<longrightarrow> scheduler_inputs y = scheduler_inputs x) \<and>
          (\<forall>x y. collector x = Inr y \<longrightarrow> scheduler_inputs y = scheduler_inputs x)"
      using that reduce_epoch_inputs [OF e] by blast
  qed (simp_all add: l reduce_limits_fields)
qed

theorem reduce_scheduler_update_witness:
  "\<exists>st'. reduce sort_by Inr Inr example_state = Inr st' \<and>
     inc_reduce st' = 310 \<and> inc_redinc st' = 9 \<and> lim_reduce st' = 1310 \<and>
     lim_analyzed st' = 12 \<and> stats_conflicts st' = 1000"
proof -
  have "map_sum id lim_reduce (reduce sort_by Inr Inr example_state) = Inr 1310"
    by (simp add: reduce_def reduce_epoch_def reduce_limits_def protect_reasons_def
      unprotect_reasons_def mark_useless_redundant_clauses_as_garbage_def var_def
      example_state_def Let_def learned_def binary_original_def analyzed_def sort_stack_def
      stack_order_def less_usefull_def analyzed_earlier_def mark_garbage_def)
  then obtain st' where r: "reduce sort_by Inr Inr example_state = Inr st'"
    by (cases "reduce sort_by Inr Inr example_state") auto
  have f: "\<forall>x y. (Inr x :: error + Internal) = Inr y \<longrightarrow> scheduler_inputs y = scheduler_inputs x"
    by simp
  from reduce_scheduler_update [OF r] f obtain s where
    i: "scheduler_inputs s = scheduler_inputs example_state" and
    u: "inc_reduce st' = inc_reduce s + inc_redinc s"
      "inc_redinc st' = (if 1 < sint (inc_redinc s) then inc_redinc s - 1 else inc_redinc s)"
      "lim_reduce st' = stats_conflicts s + (inc_reduce s + inc_redinc s)"
      "lim_analyzed st' = stats_analyzed s" "stats_conflicts st' = stats_conflicts s"
    by blast
  from i have v: "stats_conflicts s = 1000" "stats_analyzed s = 12" "inc_reduce s = 300"
    "inc_redinc s = 10"
    by (simp_all add: scheduler_inputs_def example_state_def)
  show ?thesis
    by (rule exI [of _ st']) (simp add: r u v)
qed


end
